theory Spec2Isabelle
  imports Main "HOL-Library.Sublist" "HOL-Library.AList"
begin

section \<open>Values that cross the gRPC client adapter\<close>

text \<open>
  The adapter of \<^verbatim>\<open>client-grpc.ts\<close> is untyped JavaScript underneath: arguments are
  \<^verbatim>\<open>any\<close>. Only three things about a value are ever inspected by the code: whether it
  is truthy, whether its \<^verbatim>\<open>subscribe\<close> property is a function, and (for errors) its
  \<^verbatim>\<open>details\<close> and \<^verbatim>\<open>code\<close> fields. Payloads are identified by a number.
\<close>

datatype jsval =
    Undefined
  | Null
  | Plain nat
  | Subscribable nat
  | Callback

fun truthy :: "jsval \<Rightarrow> bool" where
  "truthy Undefined = False"
| "truthy Null = False"
| "truthy _ = True"

text \<open>
  Modelled from the spec: \<^verbatim>\<open>isFunction\<close> of \<^verbatim>\<open>@nestjs/common/utils/shared.utils\<close> is
  imported, not defined in the file. The spec calls the test "anything exposing a
  subscribe capability is treated as a stream"; \<open>isFunction_subscribe v\<close> stands for
  \<^verbatim>\<open>isFunction(v.subscribe)\<close>.
\<close>

fun isFunction_subscribe :: "jsval \<Rightarrow> bool" where
  "isFunction_subscribe (Subscribable n) = True"
| "isFunction_subscribe _ = False"

fun subject_of :: "jsval \<Rightarrow> nat" where
  "subject_of (Subscribable n) = n"
| "subject_of _ = 0"

text \<open>\<^verbatim>\<open>args[i]\<close>: reading past the end of a JavaScript array gives \<^verbatim>\<open>undefined\<close>.\<close>

definition arg :: "jsval list \<Rightarrow> nat \<Rightarrow> jsval" where
  "arg args i = (if i < length args then args ! i else Undefined)"

record grpc_error =
  details :: "string option"
  code :: "int option"

definition GRPC_CANCELLED :: string where
  "GRPC_CANCELLED = ''Cancelled''"

text \<open>
  Modelled from the spec: \<^verbatim>\<open>serializeError\<close> is inherited from \<^verbatim>\<open>ClientProxy\<close>, which is
  not in the file. The spec describes the normalizer as a pure function that never throws
  and keeps the transport's fields; it is kept as an uninterpreted wrapper.
\<close>

datatype serialized = Serialized grpc_error

definition serializeError :: "grpc_error \<Rightarrow> serialized" where
  "serializeError e = Serialized e"

section \<open>What a closure does to its collaborators\<close>

text \<open>
  Every call a handler makes on the Call Handle, on the request stream or on the observer
  is recorded, in program order. \<open>SetClientCanceled\<close> records the assignment
  \<^verbatim>\<open>isClientCanceled = true\<close>, so that its position relative to \<^verbatim>\<open>call.cancel()\<close> is
  visible.
\<close>

datatype action =
    Invoke string "jsval list"
  | On string
  | Write jsval
  | End
  | Emit grpc_error
  | Destroy
  | Cancel
  | RemoveAllListeners
  | UpstreamSubscribe nat
  | UpstreamUnsubscribe
  | SetClientCanceled
  | ObserverNext jsval
  | ObserverError serialized
  | ObserverComplete

record closure_vars =
  isClientCanceled :: bool
  upstreamSubscription :: "nat option"

definition isUpstreamSubject :: "jsval list \<Rightarrow> bool" where
  "isUpstreamSubject args = (truthy (arg args 0) \<and> isFunction_subscribe (arg args 0))"

text \<open>
  The three callbacks handed to \<^verbatim>\<open>upstreamSubjectOrData.subscribe\<close>; the same three in the
  streaming adapter (lines 186-190) and in the client-streaming unary shape (lines 262-266).
\<close>

definition upstream_next :: "jsval \<Rightarrow> action list" where
  "upstream_next val = [Write val]"

definition upstream_error :: "grpc_error \<Rightarrow> action list" where
  "upstream_error err = [Emit err]"

definition upstream_complete :: "action list" where
  "upstream_complete = [End]"

subsection \<open>createStreamServiceMethod: the subscriber function and its handlers\<close>

definition stream_subscribe :: "string \<Rightarrow> bool \<Rightarrow> jsval list \<Rightarrow> closure_vars \<times> action list" where
  "stream_subscribe methodName isRequestStream args =
     (let upstreamSubjectOrData = arg args 0;
          maybeMetadata = arg args 1;
          call = (if isRequestStream \<and> isUpstreamSubject args
                  then Invoke methodName [maybeMetadata]
                  else Invoke methodName args)
      in if isRequestStream \<and> isUpstreamSubject args
         then (\<lparr>isClientCanceled = False,
                upstreamSubscription = Some (subject_of upstreamSubjectOrData)\<rparr>,
               [call, UpstreamSubscribe (subject_of upstreamSubjectOrData),
                On ''data'', On ''error'', On ''end''])
         else (\<lparr>isClientCanceled = False, upstreamSubscription = None\<rparr>,
               [call, On ''data'', On ''error'', On ''end'']))"

definition stream_on_data :: "closure_vars \<Rightarrow> jsval \<Rightarrow> closure_vars \<times> action list" where
  "stream_on_data v data = (v, [ObserverNext data])"

definition stream_on_error :: "closure_vars \<Rightarrow> grpc_error \<Rightarrow> closure_vars \<times> action list" where
  "stream_on_error v error =
     (if details error = Some GRPC_CANCELLED
      then (if isClientCanceled v
            then (v, [Destroy])
            else (v, [Destroy, ObserverError (serializeError error)]))
      else (v, [ObserverError (serializeError error)]))"

definition stream_on_end :: "closure_vars \<Rightarrow> closure_vars \<times> action list" where
  "stream_on_end v =
     (case upstreamSubscription v of
        Some n \<Rightarrow> (v\<lparr>upstreamSubscription := None\<rparr>,
                   [UpstreamUnsubscribe, RemoveAllListeners, ObserverComplete])
      | None \<Rightarrow> (v, [RemoveAllListeners, ObserverComplete]))"

text \<open>The teardown closure reads \<^verbatim>\<open>call.finished\<close>, a flag the transport owns.\<close>

definition stream_teardown :: "closure_vars \<Rightarrow> bool \<Rightarrow> closure_vars \<times> action list" where
  "stream_teardown v finished =
     (let released = (case upstreamSubscription v of Some n \<Rightarrow> [UpstreamUnsubscribe] | None \<Rightarrow> []);
          v1 = v\<lparr>upstreamSubscription := None\<rparr>
      in if finished then (v1, released)
         else (v1\<lparr>isClientCanceled := True\<rparr>, released @ [SetClientCanceled, Cancel]))"

subsection \<open>createUnaryServiceMethod, client-streaming shape (lines 238-275)\<close>

definition unary_stream_subscribe :: "string \<Rightarrow> jsval list \<Rightarrow> closure_vars \<times> action list" where
  "unary_stream_subscribe methodName args =
     (let upstreamSubjectOrData = arg args 0;
          maybeMetadata = arg args 1;
          callArgs = (if truthy maybeMetadata then [maybeMetadata, Callback] else [Callback])
      in (\<lparr>isClientCanceled = False,
           upstreamSubscription = Some (subject_of upstreamSubjectOrData)\<rparr>,
          [Invoke methodName callArgs, UpstreamSubscribe (subject_of upstreamSubjectOrData)]))"

definition is_cancel_error :: "grpc_error \<Rightarrow> bool" where
  "is_cancel_error error = (details error = Some GRPC_CANCELLED \<or> code error = Some 1)"

definition unary_stream_callback ::
  "closure_vars \<Rightarrow> grpc_error option \<Rightarrow> jsval \<Rightarrow> closure_vars \<times> action list" where
  "unary_stream_callback v error data =
     (case error of
        Some e \<Rightarrow>
          (if is_cancel_error e
           then (if isClientCanceled v
                 then (v, [Destroy])
                 else (v, [Destroy, ObserverError (serializeError e)]))
           else (v, [ObserverError (serializeError e)]))
      | None \<Rightarrow> (v, [ObserverNext data, ObserverComplete]))"

definition unary_stream_teardown :: "closure_vars \<Rightarrow> bool \<Rightarrow> closure_vars \<times> action list" where
  "unary_stream_teardown v finished =
     (if \<not> finished
      then (v\<lparr>isClientCanceled := True\<rparr>, [UpstreamUnsubscribe, SetClientCanceled, Cancel])
      else (v, [UpstreamUnsubscribe]))"

subsection \<open>createUnaryServiceMethod, plain-request shape (lines 277-291)\<close>

text \<open>
  This closure declares no variable of its own: there is no \<^verbatim>\<open>isClientCanceled\<close> and no
  upstream subscription here.
\<close>

definition unary_plain_subscribe :: "string \<Rightarrow> jsval list \<Rightarrow> action list" where
  "unary_plain_subscribe methodName args = [Invoke methodName (args @ [Callback])]"

definition unary_plain_callback :: "grpc_error option \<Rightarrow> jsval \<Rightarrow> action list" where
  "unary_plain_callback error data =
     (case error of
        Some e \<Rightarrow> [ObserverError (serializeError e)]
      | None \<Rightarrow> [ObserverNext data, ObserverComplete])"

definition unary_plain_teardown :: "bool \<Rightarrow> action list" where
  "unary_plain_teardown finished = (if \<not> finished then [Cancel] else [])"

section \<open>One subscription and its environment\<close>

text \<open>
  The handlers above run inside three collaborators that the file imports and does not
  define. What is assumed of each is written out here, and nothing else is assumed:
  \<^item> the Observable library (rxjs): the \<^verbatim>\<open>observer\<close> handed to the subscriber function
    ignores every call once it is closed; it closes on its first \<^verbatim>\<open>error\<close> or
    \<^verbatim>\<open>complete\<close> and on \<^verbatim>\<open>unsubscribe()\<close>, and closing runs the returned teardown
    closure, once;
  \<^item> the event emitter of the Call Handle: a listener is invoked only while it is
    registered, and \<^verbatim>\<open>call.emit('error', e)\<close> invokes the registered listener at once;
  \<^item> the transport: it sets \<^verbatim>\<open>call.finished\<close> when it pleases, and delivers events and
    the unary completion callback in any order and number.
\<close>

datatype shape = Streaming | UnaryClientStream | UnaryPlain

record subscription =
  shape :: shape
  vars :: closure_vars
  finished :: bool
  listening :: bool
  upstream_live :: bool
  closed :: bool
  log :: "action list"
  delivered :: "action list"

text \<open>An action that is not a call on the observer: it is logged, and the environment reacts.\<close>

fun effect :: "subscription \<Rightarrow> action \<Rightarrow> subscription" where
  "effect s (On ev) = s\<lparr>listening := True, log := log s @ [On ev]\<rparr>"
| "effect s RemoveAllListeners = s\<lparr>listening := False, log := log s @ [RemoveAllListeners]\<rparr>"
| "effect s (UpstreamSubscribe n) = s\<lparr>upstream_live := True, log := log s @ [UpstreamSubscribe n]\<rparr>"
| "effect s UpstreamUnsubscribe = s\<lparr>upstream_live := False, log := log s @ [UpstreamUnsubscribe]\<rparr>"
| "effect s a = s\<lparr>log := log s @ [a]\<rparr>"

definition teardown :: "subscription \<Rightarrow> closure_vars \<times> action list" where
  "teardown s =
     (case shape s of
        Streaming \<Rightarrow> stream_teardown (vars s) (finished s)
      | UnaryClientStream \<Rightarrow> unary_stream_teardown (vars s) (finished s)
      | UnaryPlain \<Rightarrow> (vars s, unary_plain_teardown (finished s)))"

text \<open>Closing the subscriber: the teardown closure runs unless the subscriber is closed already.\<close>

definition unsubscribe :: "subscription \<Rightarrow> subscription" where
  "unsubscribe s =
     (if closed s then s
      else foldl effect (s\<lparr>closed := True, vars := fst (teardown s)\<rparr>) (snd (teardown s)))"

text \<open>One action issued by a handler. Calls on the observer pass through the subscriber.\<close>

fun perform :: "subscription \<Rightarrow> action \<Rightarrow> subscription" where
  "perform s (ObserverNext d) =
     (if closed s then s\<lparr>log := log s @ [ObserverNext d]\<rparr>
      else s\<lparr>log := log s @ [ObserverNext d], delivered := delivered s @ [ObserverNext d]\<rparr>)"
| "perform s (ObserverError e) =
     (if closed s then s\<lparr>log := log s @ [ObserverError e]\<rparr>
      else unsubscribe (s\<lparr>log := log s @ [ObserverError e],
                          delivered := delivered s @ [ObserverError e]\<rparr>))"
| "perform s ObserverComplete =
     (if closed s then s\<lparr>log := log s @ [ObserverComplete]\<rparr>
      else unsubscribe (s\<lparr>log := log s @ [ObserverComplete],
                          delivered := delivered s @ [ObserverComplete]\<rparr>))"
| "perform s a = effect s a"

definition run_handler :: "subscription \<Rightarrow> closure_vars \<times> action list \<Rightarrow> subscription" where
  "run_handler s r = foldl perform (s\<lparr>vars := fst r\<rparr>) (snd r)"

datatype event =
    CallData jsval
  | CallError grpc_error
  | CallEnd
  | CallbackFired "grpc_error option" jsval
  | CallFinished
  | UpstreamNext jsval
  | UpstreamError grpc_error
  | UpstreamComplete
  | Unsubscribe

fun step :: "subscription \<Rightarrow> event \<Rightarrow> subscription" where
  "step s (CallData d) =
     (if shape s = Streaming \<and> listening s then run_handler s (stream_on_data (vars s) d) else s)"
| "step s (CallError e) =
     (if shape s = Streaming \<and> listening s then run_handler s (stream_on_error (vars s) e) else s)"
| "step s CallEnd =
     (if shape s = Streaming \<and> listening s then run_handler s (stream_on_end (vars s)) else s)"
| "step s (CallbackFired error d) =
     (case shape s of
        Streaming \<Rightarrow> s
      | UnaryClientStream \<Rightarrow> run_handler s (unary_stream_callback (vars s) error d)
      | UnaryPlain \<Rightarrow> run_handler s (vars s, unary_plain_callback error d))"
| "step s CallFinished = s\<lparr>finished := True\<rparr>"
| "step s (UpstreamNext v) =
     (if upstream_live s then foldl effect s (upstream_next v) else s)"
| "step s (UpstreamError e) =
     (if upstream_live s
      then (let s1 = foldl effect (s\<lparr>upstream_live := False\<rparr>) (upstream_error e)
            in if shape s1 = Streaming \<and> listening s1
               then run_handler s1 (stream_on_error (vars s1) e) else s1)
      else s)"
| "step s UpstreamComplete =
     (if upstream_live s then foldl effect (s\<lparr>upstream_live := False\<rparr>) upstream_complete else s)"
| "step s Unsubscribe = unsubscribe s"

definition run :: "subscription \<Rightarrow> event list \<Rightarrow> subscription" where
  "run s evs = foldl step s evs"

section \<open>The dispatcher and the lazily started response stream\<close>

record method_descriptor =
  requestStream :: bool
  responseStream :: bool

type_synonym client = "string \<Rightarrow> method_descriptor option"

datatype js_error =
    TypeError
  | Error string
  | InvalidGrpcServiceException string

text \<open>
  A generated service method is a closure over the client object and the method name. The
  client is captured by reference, so its state at the time of a call is an argument of
  \<open>invoke\<close>.
\<close>

datatype service_method = StreamServiceMethod string | UnaryServiceMethod string

definition createStreamServiceMethod :: "client \<Rightarrow> string \<Rightarrow> service_method" where
  "createStreamServiceMethod client methodName = StreamServiceMethod methodName"

definition createUnaryServiceMethod :: "client \<Rightarrow> string \<Rightarrow> service_method" where
  "createUnaryServiceMethod client methodName = UnaryServiceMethod methodName"

text \<open>\<^verbatim>\<open>client[methodName].responseStream\<close> on a method the client lacks is a TypeError.\<close>

definition createServiceMethod :: "client \<Rightarrow> string \<Rightarrow> js_error + service_method" where
  "createServiceMethod client methodName =
     (case client methodName of
        None \<Rightarrow> Inl TypeError
      | Some m \<Rightarrow>
          Inr (if responseStream m
               then createStreamServiceMethod client methodName
               else createUnaryServiceMethod client methodName))"

text \<open>
  \<^verbatim>\<open>new Observable(subscriber)\<close>: the subscriber function with what it captured. Nothing runs
  until \<open>subscribe\<close>.
\<close>

record observable =
  obs_shape :: shape
  obs_methodName :: string
  obs_isRequestStream :: bool
  obs_args :: "jsval list"

definition invoke :: "service_method \<Rightarrow> client \<Rightarrow> jsval list \<Rightarrow> js_error + observable" where
  "invoke sm client args =
     (case sm of
        StreamServiceMethod methodName \<Rightarrow>
          (case client methodName of
             None \<Rightarrow> Inl TypeError
           | Some m \<Rightarrow>
               Inr \<lparr>obs_shape = Streaming, obs_methodName = methodName,
                    obs_isRequestStream = requestStream m, obs_args = args\<rparr>)
      | UnaryServiceMethod methodName \<Rightarrow>
          (case client methodName of
             None \<Rightarrow> Inl TypeError
           | Some m \<Rightarrow>
               Inr \<lparr>obs_shape = (if requestStream m \<and> isUpstreamSubject args
                                 then UnaryClientStream else UnaryPlain),
                    obs_methodName = methodName,
                    obs_isRequestStream = requestStream m, obs_args = args\<rparr>))"

definition fresh :: "shape \<Rightarrow> subscription" where
  "fresh sh = \<lparr>shape = sh,
               vars = \<lparr>isClientCanceled = False, upstreamSubscription = None\<rparr>,
               finished = False, listening = False, upstream_live = False, closed = False,
               log = [], delivered = []\<rparr>"

definition subscriber :: "observable \<Rightarrow> closure_vars \<times> action list" where
  "subscriber obs =
     (case obs_shape obs of
        Streaming \<Rightarrow> stream_subscribe (obs_methodName obs) (obs_isRequestStream obs) (obs_args obs)
      | UnaryClientStream \<Rightarrow> unary_stream_subscribe (obs_methodName obs) (obs_args obs)
      | UnaryPlain \<Rightarrow>
          (\<lparr>isClientCanceled = False, upstreamSubscription = None\<rparr>,
           unary_plain_subscribe (obs_methodName obs) (obs_args obs)))"

definition subscribe :: "observable \<Rightarrow> subscription" where
  "subscribe obs =
     foldl effect ((fresh (obs_shape obs))\<lparr>vars := fst (subscriber obs)\<rparr>) (snd (subscriber obs))"

text \<open>
  The world is every subscription made so far; the Call Handle of a subscription is the one
  its own \<open>Invoke\<close> opened, and events are addressed to a subscription by its index.
\<close>

type_synonym world = "subscription list"

definition invoke_in ::
  "service_method \<Rightarrow> client \<Rightarrow> jsval list \<Rightarrow> world \<Rightarrow> (js_error + observable) \<times> world" where
  "invoke_in sm client args w = (invoke sm client args, w)"

definition subscribe_in :: "observable \<Rightarrow> world \<Rightarrow> nat \<times> world" where
  "subscribe_in obs w = (length w, w @ [subscribe obs])"

definition deliver :: "nat \<Rightarrow> event \<Rightarrow> world \<Rightarrow> world" where
  "deliver i ev w = (if i < length w then w[i := step (w ! i) ev] else w)"

fun is_invoke :: "action \<Rightarrow> bool" where
  "is_invoke (Invoke m as) = True"
| "is_invoke _ = False"

definition calls_opened :: "world \<Rightarrow> nat" where
  "calls_opened w = length (filter is_invoke (concat (map log w)))"

section \<open>The proxy object: client registry and unsupported operations\<close>

datatype credentials = Insecure | Custom nat

record grpc_options =
  opt_url :: "string option"
  opt_channelOptions :: "(string \<times> nat) list option"
  opt_maxSendMessageLength :: "nat option"
  opt_maxReceiveMessageLength :: "nat option"
  opt_maxMetadataSize :: "nat option"
  opt_keepalive :: "(string \<times> nat) list option"
  opt_credentials :: "credentials option"

text \<open>
  A per-service client as \<^verbatim>\<open>new clientRef[name](url, credentials, options)\<close> builds it.
  \<open>ident\<close> is the identity of the object: two constructions never give the same one.
\<close>

record grpc_client =
  ident :: nat
  service :: string
  target :: string
  creds :: credentials
  channel :: "(string \<times> nat) list"

text \<open>
  What a loaded package owns under a name: the constructor of a service client, or something
  that is not a constructor (a message or enum type, a nested package), on which
  \<^verbatim>\<open>new\<close> raises a TypeError.
\<close>

datatype member = ServiceClient | MessageType

text \<open>
  \<open>clients\<close> is the \<^verbatim>\<open>Map\<close> of the class, in insertion order. \<open>grpcClients\<close> holds the loaded
  packages, each with its own properties. \<open>constructed\<close> and \<open>closed_clients\<close> record what
  happened to the transport: every client ever built, and every client \<^verbatim>\<open>close()\<close> was
  called on.
\<close>

record proxy =
  options :: grpc_options
  url :: string
  clients :: "(string \<times> grpc_client) list"
  grpcClients :: "(string \<times> member) list list"
  constructed :: "grpc_client list"
  closed_clients :: "grpc_client list"

datatype 'a completion = Returned 'a | Thrown js_error

text \<open>A JavaScript option is on when it is present and not zero.\<close>

fun set_if :: "nat option \<Rightarrow> string \<Rightarrow> (string \<times> nat) list \<Rightarrow> (string \<times> nat) list" where
  "set_if None key m = m"
| "set_if (Some n) key m = (if n = 0 then m else AList.update key n m)"

definition keepaliveKeys :: "(string \<times> string) list" where
  "keepaliveKeys =
     [(''keepaliveTimeMs'', ''grpc.keepalive_time_ms''),
      (''keepaliveTimeoutMs'', ''grpc.keepalive_timeout_ms''),
      (''keepalivePermitWithoutCalls'', ''grpc.keepalive_permit_without_calls''),
      (''http2MaxPingsWithoutData'', ''grpc.http2.max_pings_without_data''),
      (''http2MinTimeBetweenPingsMs'', ''grpc.http2.min_time_between_pings_ms''),
      (''http2MinPingIntervalWithoutDataMs'', ''grpc.http2.min_ping_interval_without_data_ms''),
      (''http2MaxPingStrikes'', ''grpc.http2.max_ping_strikes'')]"

text \<open>
  \<^verbatim>\<open>keepaliveKeys[optionKey]\<close> indexes an object literal, so a name that the literal does not
  own is still found when \<^verbatim>\<open>Object.prototype\<close> has it, and is then not skipped: the value
  found (a native function, or the prototype object for \<^verbatim>\<open>__proto__\<close>) becomes the
  property name of the assignment, i.e. its string form. The string form of a native
  function is the one the ECMAScript standard prescribes for it.
\<close>

definition object_prototype_methods :: "string list" where
  "object_prototype_methods =
     [''__defineGetter__'', ''__defineSetter__'', ''hasOwnProperty'', ''__lookupGetter__'',
      ''__lookupSetter__'', ''isPrototypeOf'', ''propertyIsEnumerable'', ''toString'',
      ''valueOf'', ''toLocaleString'']"

definition inherited_key :: "string \<Rightarrow> string option" where
  "inherited_key optionKey =
     (if optionKey = ''__proto__'' then Some ''[object Object]''
      else if optionKey = ''constructor'' then Some ''function Object() { [native code] }''
      else if optionKey \<in> set object_prototype_methods
      then Some (''function '' @ optionKey @ ''() { [native code] }'')
      else None)"

definition keepaliveKeys_at :: "string \<Rightarrow> string option" where
  "keepaliveKeys_at optionKey =
     (case map_of keepaliveKeys optionKey of
        Some key \<Rightarrow> Some key
      | None \<Rightarrow> inherited_key optionKey)"

fun keepalive_entries :: "(string \<times> nat) list \<Rightarrow> (string \<times> nat) list \<Rightarrow> (string \<times> nat) list" where
  "keepalive_entries [] keepaliveOptions = keepaliveOptions"
| "keepalive_entries ((optionKey, optionValue) # rest) keepaliveOptions =
     (case keepaliveKeys_at optionKey of
        None \<Rightarrow> keepalive_entries rest keepaliveOptions
      | Some key \<Rightarrow> keepalive_entries rest (AList.update key optionValue keepaliveOptions))"

definition getKeepaliveOptions :: "proxy \<Rightarrow> (string \<times> nat) list" where
  "getKeepaliveOptions p =
     (case opt_keepalive (options p) of
        None \<Rightarrow> []
      | Some entries \<Rightarrow> keepalive_entries entries [])"

text \<open>\<^verbatim>\<open>Object.hasOwnProperty.call(client, name)\<close>: any own property counts, constructor or not.\<close>

definition getClient :: "proxy \<Rightarrow> string \<Rightarrow> (string \<times> member) list option" where
  "getClient p name = List.find (\<lambda>client. map_of client name \<noteq> None) (grpcClients p)"

text \<open>
  \<^verbatim>\<open>channelOptions\<close> is the object of \<^verbatim>\<open>this.options\<close> itself when there is one, so the three
  assignments also change the options of the proxy. They come before the \<^verbatim>\<open>new\<close>, so they
  stay when \<^verbatim>\<open>new clientRef[name]\<close> raises because the member is not a constructor.
\<close>

definition createClientByServiceName :: "string \<Rightarrow> proxy \<Rightarrow> grpc_client completion \<times> proxy" where
  "createClientByServiceName name p =
     (case getClient p name of
        None \<Rightarrow> (Thrown (InvalidGrpcServiceException name), p)
      | Some clientRef \<Rightarrow>
          (let channelOptions =
                 set_if (opt_maxMetadataSize (options p)) ''grpc.max_metadata_size''
                   (set_if (opt_maxReceiveMessageLength (options p)) ''grpc.max_receive_message_length''
                     (set_if (opt_maxSendMessageLength (options p)) ''grpc.max_send_message_length''
                       (case opt_channelOptions (options p) of None \<Rightarrow> [] | Some c \<Rightarrow> c)));
               keepaliveOptions = getKeepaliveOptions p;
               opts = foldl (\<lambda>m (k, v). AList.update k v m) channelOptions keepaliveOptions;
               credentials = (case opt_credentials (options p) of None \<Rightarrow> Insecure | Some c \<Rightarrow> c);
               grpcClient = \<lparr>ident = length (constructed p), service = name, target = url p,
                             creds = credentials, channel = opts\<rparr>;
               options1 = (case opt_channelOptions (options p) of
                             None \<Rightarrow> options p
                           | Some c \<Rightarrow> (options p)\<lparr>opt_channelOptions := Some channelOptions\<rparr>)
           in if map_of clientRef name = Some ServiceClient
              then (Returned grpcClient,
                    p\<lparr>options := options1,
                      clients := AList.update name grpcClient (clients p),
                      constructed := constructed p @ [grpcClient]\<rparr>)
              else (Thrown TypeError, p\<lparr>options := options1\<rparr>)))"

definition getClientByServiceName :: "string \<Rightarrow> proxy \<Rightarrow> grpc_client completion \<times> proxy" where
  "getClientByServiceName name p =
     (case map_of (clients p) name of
        Some c \<Rightarrow> (Returned c, p)
      | None \<Rightarrow> createClientByServiceName name p)"

definition close :: "proxy \<Rightarrow> proxy" where
  "close p = p\<lparr>closed_clients := closed_clients p @ map snd (clients p),
               clients := [], grpcClients := []\<rparr>"

text \<open>Looking clients up one service name after another, keeping the proxy.\<close>

fun lookups :: "string list \<Rightarrow> proxy \<Rightarrow> proxy" where
  "lookups [] p = p"
| "lookups (name # names) p = lookups names (snd (getClientByServiceName name p))"

text \<open>
  The operations the adapter refuses. A method declared \<^verbatim>\<open>async\<close> does not raise at the call
  site: its \<^verbatim>\<open>throw\<close> rejects the promise it returns.
\<close>

datatype outcome = Throws js_error | ReturnsRejected js_error

definition NOT_SUPPORTED_LONG :: string where
  "NOT_SUPPORTED_LONG =
     ''Method is not supported in gRPC mode. Use ClientGrpc instead (learn more in the documentation).''"

definition status :: "proxy \<Rightarrow> outcome \<times> proxy" where
  "status p =
     (Throws (Error (''The '' @ [CHR 0x22] @ ''status'' @ [CHR 0x22] @
                     '' attribute is not supported by the gRPC transport'')), p)"

definition connect :: "proxy \<Rightarrow> outcome \<times> proxy" where
  "connect p =
     (ReturnsRejected (Error (''The '' @ [CHR 0x22] @ ''connect()'' @ [CHR 0x22] @
                              '' method is not supported in gRPC mode.'')), p)"

definition send :: "jsval \<Rightarrow> jsval \<Rightarrow> proxy \<Rightarrow> outcome \<times> proxy" where
  "send pattern data p = (Throws (Error NOT_SUPPORTED_LONG), p)"

definition publish :: "jsval \<Rightarrow> jsval \<Rightarrow> proxy \<Rightarrow> outcome \<times> proxy" where
  "publish packet callback p = (Throws (Error NOT_SUPPORTED_LONG), p)"

definition dispatchEvent :: "jsval \<Rightarrow> proxy \<Rightarrow> outcome \<times> proxy" where
  "dispatchEvent packet p = (ReturnsRejected (Error NOT_SUPPORTED_LONG), p)"

definition on :: "jsval \<Rightarrow> jsval \<Rightarrow> proxy \<Rightarrow> outcome \<times> proxy" where
  "on event callback p = (Throws (Error ''Method is not supported in gRPC mode.''), p)"

definition unwrap :: "proxy \<Rightarrow> outcome \<times> proxy" where
  "unwrap p = (Throws (Error ''Method is not supported in gRPC mode.''), p)"

fun raised_at_call_site :: "outcome \<Rightarrow> bool" where
  "raised_at_call_site (Throws e) = True"
| "raised_at_call_site (ReturnsRejected e) = False"

fun message_of :: "outcome \<Rightarrow> string" where
  "message_of (Throws (Error m)) = m"
| "message_of (ReturnsRejected (Error m)) = m"
| "message_of _ = []"

definition a_proxy :: proxy where
  "a_proxy =
     \<lparr>options = \<lparr>opt_url = None, opt_channelOptions = None, opt_maxSendMessageLength = None,
                 opt_maxReceiveMessageLength = None, opt_maxMetadataSize = Some 8192,
                 opt_keepalive = Some [(''keepaliveTimeMs'', 1000), (''unknownKey'', 5),
                                       (''toString'', 7)],
                 opt_credentials = None\<rparr>,
      url = ''localhost:5000'',
      clients = [],
      grpcClients = [[(''HeroService'', ServiceClient), (''HeroById'', MessageType),
                      (''OrderService'', ServiceClient)]],
      constructed = [],
      closed_clients = []\<rparr>"

section \<open>Predicates on what the consumer receives\<close>

fun is_value :: "action \<Rightarrow> bool" where
  "is_value (ObserverNext d) = True"
| "is_value _ = False"

fun is_terminal :: "action \<Rightarrow> bool" where
  "is_terminal (ObserverError e) = True"
| "is_terminal ObserverComplete = True"
| "is_terminal _ = False"

text \<open>Values first, then at most one terminal event, and nothing after it.\<close>

fun well_terminated :: "action list \<Rightarrow> bool" where
  "well_terminated [] = True"
| "well_terminated (a # as) = (if is_value a then well_terminated as else is_terminal a \<and> as = [])"

text \<open>What a unary response stream may have delivered.\<close>

fun unary_outcome :: "action list \<Rightarrow> bool" where
  "unary_outcome [] = True"
| "unary_outcome [ObserverNext d, ObserverComplete] = True"
| "unary_outcome [ObserverError e] = True"
| "unary_outcome _ = False"

text \<open>
  The invariant of a subscription: while the subscriber is open nothing but values was
  delivered, \<^verbatim>\<open>cancel()\<close> was never issued and \<^verbatim>\<open>isClientCanceled\<close> is false; once it
  is closed the delivered events are well terminated and \<^verbatim>\<open>cancel()\<close> was issued at most once.
\<close>

definition open_inv :: "subscription \<Rightarrow> bool" where
  "open_inv s = (list_all is_value (delivered s) \<and> count_list (log s) Cancel = 0
                 \<and> isClientCanceled (vars s) = False
                 \<and> (shape s = Streaming \<or> delivered s = []))"

definition closed_inv :: "subscription \<Rightarrow> bool" where
  "closed_inv s = (well_terminated (delivered s) \<and> count_list (log s) Cancel \<le> 1
                   \<and> (shape s = Streaming \<or> unary_outcome (delivered s)))"

definition sub_inv :: "subscription \<Rightarrow> bool" where
  "sub_inv s = (if closed s then closed_inv s else open_inv s)"

section \<open>Further predicates\<close>

fun is_upstream_event :: "event \<Rightarrow> bool" where
  "is_upstream_event (UpstreamNext v) = True"
| "is_upstream_event (UpstreamError e) = True"
| "is_upstream_event UpstreamComplete = True"
| "is_upstream_event _ = False"

text \<open>What the adapter does on the Call Handle for the request stream.\<close>

fun is_forward :: "action \<Rightarrow> bool" where
  "is_forward (Write v) = True"
| "is_forward End = True"
| "is_forward (Emit e) = True"
| "is_forward _ = False"

text \<open>What one event of the request stream is turned into by the three upstream callbacks.\<close>

fun forwarded :: "event \<Rightarrow> action list" where
  "forwarded (UpstreamNext v) = upstream_next v"
| "forwarded (UpstreamError e) = upstream_error e"
| "forwarded UpstreamComplete = upstream_complete"
| "forwarded _ = []"

fun is_upstream_terminal :: "event \<Rightarrow> bool" where
  "is_upstream_terminal (UpstreamError e) = True"
| "is_upstream_terminal UpstreamComplete = True"
| "is_upstream_terminal _ = False"

text \<open>
  The invariant of the Upstream Subscription: while it is live the response stream is open,
  the closure still holds it, and the call was not ended; the call is ended at most once.
\<close>

definition upstream_inv :: "subscription \<Rightarrow> bool" where
  "upstream_inv s =
     (if upstream_live s
      then closed s = False \<and> (shape s = UnaryClientStream
             \<or> (shape s = Streaming \<and> upstreamSubscription (vars s) \<noteq> None))
           \<and> count_list (log s) End = 0
      else count_list (log s) End \<le> 1)"

text \<open>
  The registry and the transport agree: the cached clients are exactly the clients ever
  built, each under the name of its service, and no name is cached twice.
\<close>

definition registry_consistent :: "proxy \<Rightarrow> bool" where
  "registry_consistent p = (map snd (clients p) = constructed p
      \<and> map fst (clients p) = map service (constructed p)
      \<and> distinct (map fst (clients p)))"

section \<open>Concrete inputs\<close>

definition cancelled_error :: grpc_error where
  "cancelled_error = \<lparr>details = Some ''Cancelled'', code = Some 1\<rparr>"

definition plain_observable :: observable where
  "plain_observable = \<lparr>obs_shape = UnaryPlain, obs_methodName = ''findOne'',
                        obs_isRequestStream = False, obs_args = [Plain 7]\<rparr>"

definition upload_observable :: observable where
  "upload_observable = \<lparr>obs_shape = UnaryClientStream, obs_methodName = ''upload'',
                         obs_isRequestStream = True, obs_args = [Subscribable 3, Plain 1]\<rparr>"

definition watch_observable :: observable where
  "watch_observable = \<lparr>obs_shape = Streaming, obs_methodName = ''watch'',
                        obs_isRequestStream = True, obs_args = [Subscribable 3, Plain 1]\<rparr>"

definition chat_observable :: observable where
  "chat_observable = \<lparr>obs_shape = Streaming, obs_methodName = ''chat'',
                       obs_isRequestStream = True, obs_args = [Subscribable 3, Plain 1]\<rparr>"

definition client_a :: client where
  "client_a = (\<lambda>n. if n = ''findMany''
                    then Some \<lparr>requestStream = False, responseStream = True\<rparr> else None)"

definition client_b :: client where
  "client_b = (\<lambda>n. if n = ''findMany''
                    then Some \<lparr>requestStream = True, responseStream = False\<rparr> else None)"

definition unknown_error :: grpc_error where
  "unknown_error = \<lparr>details = Some ''Connection dropped'', code = Some 14\<rparr>"

definition client_c :: client where
  "client_c = (\<lambda>n. if n = ''upload''
                    then Some \<lparr>requestStream = True, responseStream = False\<rparr>
                    else if n = ''chat''
                    then Some \<lparr>requestStream = True, responseStream = True\<rparr> else None)"

definition hero_client :: grpc_client where
  "hero_client = \<lparr>ident = 0, service = ''HeroService'', target = ''localhost:5000'',
                   creds = Insecure,
                   channel = [(''grpc.max_metadata_size'', 8192), (''grpc.keepalive_time_ms'', 1000),
                              (''function toString() { [native code] }'', 7)]\<rparr>"

definition a_proxy_with_hero :: proxy where
  "a_proxy_with_hero = a_proxy\<lparr>clients := [(''HeroService'', hero_client)],
                               constructed := [hero_client]\<rparr>"

section \<open>Lemmas about one subscription\<close>


lemma effect_fields:
  "shape (effect s a) = shape s" "vars (effect s a) = vars s" "finished (effect s a) = finished s"
  "closed (effect s a) = closed s" "delivered (effect s a) = delivered s"
  "log (effect s a) = log s @ [a]"
  by (cases a; simp)+

lemma foldl_effect_fields:
  "shape (foldl effect s as) = shape s" "vars (foldl effect s as) = vars s"
  "finished (foldl effect s as) = finished s"
  "closed (foldl effect s as) = closed s" "delivered (foldl effect s as) = delivered s"
  "log (foldl effect s as) = log s @ as"
  by (induction as arbitrary: s; simp add: effect_fields)+

lemma teardown_no_observer:
  "snd (teardown s) = [] \<or> snd (teardown s) = [UpstreamUnsubscribe] \<or> snd (teardown s) = [Cancel]
   \<or> snd (teardown s) = [SetClientCanceled, Cancel]
   \<or> snd (teardown s) = [UpstreamUnsubscribe, SetClientCanceled, Cancel]"
  by (simp add: teardown_def stream_teardown_def unary_stream_teardown_def unary_plain_teardown_def
      Let_def split: shape.splits option.splits)

lemma unsubscribe_fields:
  "shape (unsubscribe s) = shape s" "finished (unsubscribe s) = finished s"
  "closed (unsubscribe s)" "delivered (unsubscribe s) = delivered s"
  "log (unsubscribe s) = (if closed s then log s else log s @ snd (teardown s))"
  by (simp_all add: unsubscribe_def foldl_effect_fields)

lemma unsubscribe_closed: "closed s \<Longrightarrow> unsubscribe s = s"
  by (simp add: unsubscribe_def)

lemma perform_closed:
  "closed s \<Longrightarrow> closed (perform s a) \<and> delivered (perform s a) = delivered s
     \<and> log (perform s a) = log s @ [a] \<and> shape (perform s a) = shape s
     \<and> finished (perform s a) = finished s \<and> vars (perform s a) = vars s"
  by (cases a; simp add: effect_fields)

lemma foldl_perform_closed:
  "closed s \<Longrightarrow> closed (foldl perform s as) \<and> delivered (foldl perform s as) = delivered s
     \<and> log (foldl perform s as) = log s @ as \<and> shape (foldl perform s as) = shape s
     \<and> finished (foldl perform s as) = finished s \<and> vars (foldl perform s as) = vars s"
  by (induction as arbitrary: s; simp add: perform_closed)

lemma run_handler_closed:
  "closed s \<Longrightarrow> closed (run_handler s r) \<and> delivered (run_handler s r) = delivered s
     \<and> log (run_handler s r) = log s @ snd r \<and> shape (run_handler s r) = shape s
     \<and> finished (run_handler s r) = finished s \<and> vars (run_handler s r) = fst r"
  using foldl_perform_closed[of "s\<lparr>vars := fst r\<rparr>" "snd r"]
  by (simp add: run_handler_def)

lemma handlers_no_cancel:
  "count_list (snd (stream_on_data v d)) Cancel = 0"
  "count_list (snd (stream_on_error v e)) Cancel = 0"
  "count_list (snd (stream_on_end v)) Cancel = 0"
  "count_list (snd (unary_stream_callback v err d)) Cancel = 0"
  "count_list (unary_plain_callback err d) Cancel = 0"
  by (simp_all add: stream_on_data_def stream_on_error_def stream_on_end_def
      unary_stream_callback_def unary_plain_callback_def split: option.splits)

lemma step_closed:
  assumes "closed s"
  shows "closed (step s ev) \<and> delivered (step s ev) = delivered s
     \<and> count_list (log (step s ev)) Cancel = count_list (log s) Cancel
     \<and> shape (step s ev) = shape s"
proof (cases ev)
  case (UpstreamError e)
  then show ?thesis using assms
    by (simp add: run_handler_closed handlers_no_cancel foldl_effect_fields upstream_error_def Let_def)
qed (use assms in \<open>simp_all add: run_handler_closed handlers_no_cancel foldl_effect_fields
       upstream_next_def upstream_complete_def unsubscribe_closed split: shape.splits\<close>)

lemma well_terminated_values: "list_all is_value xs \<Longrightarrow> well_terminated xs"
  by (induction xs) auto

lemma terminal_not_value: "is_terminal t \<Longrightarrow> \<not> is_value t"
  by (cases t) auto

lemma well_terminated_snoc:
  "list_all is_value xs \<Longrightarrow> is_terminal t \<Longrightarrow> well_terminated (xs @ [t])"
  by (induction xs) (auto simp: terminal_not_value)

lemma teardown_cancels: "count_list (snd (teardown s)) Cancel \<le> 1"
  using teardown_no_observer[of s] by auto

lemma subscribe_open: "\<not> closed (subscribe obs) \<and> open_inv (subscribe obs)"
  by (simp add: subscribe_def foldl_effect_fields fresh_def open_inv_def subscriber_def
      stream_subscribe_def unary_stream_subscribe_def unary_plain_subscribe_def Let_def
      split: shape.splits)

lemma inv_subscribe: "sub_inv (subscribe obs)"
  using subscribe_open by (simp add: sub_inv_def)



lemmas handler_defs = run_handler_def stream_on_data_def stream_on_error_def stream_on_end_def
  unary_stream_callback_def unary_plain_callback_def upstream_next_def upstream_error_def
  upstream_complete_def

lemmas teardown_defs = teardown_def stream_teardown_def unary_stream_teardown_def
  unary_plain_teardown_def

lemma unsubscribe_inv:
  assumes "\<not> closed s" "count_list (log s) Cancel = 0" "well_terminated (delivered s)"
    "shape s = Streaming \<or> unary_outcome (delivered s)"
  shows "closed_inv (unsubscribe s)"
  using assms teardown_cancels[of s]
  by (auto simp: closed_inv_def unsubscribe_fields)

lemma step_open:
  assumes "\<not> closed s" "open_inv s"
  shows "sub_inv (step s ev)"
proof (cases ev)
  case (CallData d)
  then show ?thesis using assms
    by (simp add: sub_inv_def open_inv_def handler_defs)
next
  case (CallError e)
  then show ?thesis using assms
    by (simp add: sub_inv_def open_inv_def handler_defs unsubscribe_fields unsubscribe_inv
        well_terminated_snoc)
next
  case CallEnd
  then show ?thesis using assms
    by (simp add: sub_inv_def open_inv_def handler_defs unsubscribe_fields unsubscribe_inv
        well_terminated_snoc split: option.splits)
next
  case (CallbackFired err d)
  then show ?thesis using assms
    by (auto simp: sub_inv_def open_inv_def handler_defs unsubscribe_fields
        intro!: unsubscribe_inv split: option.splits shape.splits)
next
  case CallFinished
  then show ?thesis using assms by (simp add: sub_inv_def open_inv_def)
next
  case (UpstreamNext v)
  then show ?thesis using assms
    by (simp add: sub_inv_def open_inv_def handler_defs)
next
  case (UpstreamError e)
  then show ?thesis using assms
    by (simp add: sub_inv_def open_inv_def handler_defs unsubscribe_fields unsubscribe_inv
        well_terminated_snoc Let_def)
next
  case UpstreamComplete
  then show ?thesis using assms
    by (simp add: sub_inv_def open_inv_def handler_defs)
next
  case Unsubscribe
  then show ?thesis using assms
    by (auto simp: sub_inv_def open_inv_def unsubscribe_fields well_terminated_values
        intro!: unsubscribe_inv)
qed


lemma step_inv: "sub_inv s \<Longrightarrow> sub_inv (step s ev)"
proof (cases "closed s")
  case True
  assume "sub_inv s"
  with True step_closed[OF True, of ev] show ?thesis
    by (simp add: sub_inv_def closed_inv_def)
next
  case False
  assume "sub_inv s"
  with False have "open_inv s" by (simp add: sub_inv_def)
  with False show ?thesis by (rule step_open)
qed

lemma run_inv: "sub_inv s \<Longrightarrow> sub_inv (run s evs)"
  unfolding run_def by (induction evs arbitrary: s) (simp_all add: step_inv)

lemma run_closed:
  "closed s \<Longrightarrow> closed (run s evs) \<and> delivered (run s evs) = delivered s
     \<and> count_list (log (run s evs)) Cancel = count_list (log s) Cancel"
  unfolding run_def
proof (induction evs arbitrary: s)
  case Nil
  then show ?case by simp
next
  case (Cons ev evs)
  from step_closed[OF Cons.prems, of ev] Cons.IH[of "step s ev"] show ?case by simp
qed

lemma sub_inv_well_terminated: "sub_inv s \<Longrightarrow> well_terminated (delivered s)"
  by (cases "closed s") (auto simp: sub_inv_def closed_inv_def open_inv_def well_terminated_values)

lemma sub_inv_unary: "sub_inv s \<Longrightarrow> shape s \<noteq> Streaming \<Longrightarrow> unary_outcome (delivered s)"
  by (cases "closed s") (auto simp: sub_inv_def closed_inv_def open_inv_def)

lemma perform_shape: "shape (perform s a) = shape s"
  by (cases a) (simp_all add: effect_fields unsubscribe_fields)

lemma foldl_perform_shape: "shape (foldl perform s as) = shape s"
  by (induction as arbitrary: s) (simp_all add: perform_shape)

lemma step_shape: "shape (step s ev) = shape s"
  by (cases ev)
    (simp_all add: run_handler_def foldl_perform_shape foldl_effect_fields unsubscribe_fields
      Let_def split: shape.splits)

lemma run_shape: "shape (run s evs) = shape s"
  unfolding run_def by (induction evs arbitrary: s) (simp_all add: step_shape)

lemma subscribe_shape: "shape (subscribe obs) = obs_shape obs"
  by (simp add: subscribe_def foldl_effect_fields fresh_def)

lemma reachable_inv: "sub_inv (run (subscribe obs) evs)"
  by (rule run_inv[OF inv_subscribe])

lemma callback_open:
  assumes "\<not> closed s" "shape s \<noteq> Streaming" "isClientCanceled (vars s) = False"
  shows "delivered (step s (CallbackFired None d)) = delivered s @ [ObserverNext d, ObserverComplete]"
    and "delivered (step s (CallbackFired (Some e) d)) = delivered s @ [ObserverError (serializeError e)]"
    and "closed (step s (CallbackFired err d))"
  using assms
  by (cases "shape s"; cases err; simp add: handler_defs unsubscribe_fields)+

lemma unsubscribe_listening: "listening (unsubscribe s) = listening s"
  using teardown_no_observer[of s] by (auto simp: unsubscribe_def)

lemma teardown_cancel_count: "count_list (snd (teardown s)) Cancel = (if finished s then 0 else 1)"
  by (simp add: teardown_defs Let_def split: shape.splits option.splits)

lemma unsubscribe_idem: "unsubscribe (unsubscribe s) = unsubscribe s"
  by (simp add: unsubscribe_closed unsubscribe_fields)

lemma unsubscribe_vars: "\<not> closed s \<Longrightarrow> vars (unsubscribe s) = fst (teardown s)"
  by (simp add: unsubscribe_def foldl_effect_fields)

lemma unsubscribe_log_finished:
  "\<not> closed s \<Longrightarrow> finished s \<Longrightarrow>
   log (unsubscribe s) = log s @ (if shape s = UnaryClientStream
        \<or> (shape s = Streaming \<and> upstreamSubscription (vars s) \<noteq> None)
      then [UpstreamUnsubscribe] else [])
   \<and> isClientCanceled (vars (unsubscribe s)) = isClientCanceled (vars s)"
  by (auto simp: unsubscribe_fields unsubscribe_vars teardown_defs Let_def
      split: shape.splits option.splits)

lemma step_error_keeps_listening: "listening s \<Longrightarrow> listening (step s (CallError e))"
  by (simp add: handler_defs unsubscribe_listening)

lemma run_append: "run s (xs @ ys) = run (run s xs) ys"
  by (simp add: run_def)

lemma run_snoc: "run s (xs @ [ev]) = step (run s xs) ev"
  by (simp add: run_def)

lemma run_upstream_values:
  "upstream_live s \<Longrightarrow> run s (map UpstreamNext vs) = s\<lparr>log := log s @ map Write vs\<rparr>"
  unfolding run_def
  by (induction vs arbitrary: s) (simp_all add: upstream_next_def)

lemma run_upstream_dead:
  "\<not> upstream_live s \<Longrightarrow> list_all is_upstream_event ups \<Longrightarrow> run s ups = s"
  unfolding run_def
proof (induction ups arbitrary: s)
  case Nil
  then show ?case by simp
next
  case (Cons ev ups)
  then show ?case by (cases ev) simp_all
qed

lemma perform_log_prefix: "prefix (log s) (log (perform s a))"
  by (cases a) (simp_all add: effect_fields unsubscribe_fields)

lemma foldl_perform_log_prefix: "prefix (log s) (log (foldl perform s as))"
proof (induction as arbitrary: s)
  case Nil
  then show ?case by simp
next
  case (Cons a as)
  have "prefix (log s) (log (perform s a))" by (rule perform_log_prefix)
  also have "prefix (log (perform s a)) (log (foldl perform (perform s a) as))" by (rule Cons.IH)
  finally show ?case by simp
qed

lemma upstream_error_log:
  "upstream_live s \<Longrightarrow> prefix (log s @ [Emit e]) (log (step s (UpstreamError e)))"
  using foldl_perform_log_prefix[of "s\<lparr>upstream_live := False, log := log s @ [Emit e],
      vars := fst (stream_on_error (vars s) e)\<rparr>" "snd (stream_on_error (vars s) e)"]
  by (simp add: upstream_error_def run_handler_def Let_def)

lemma subscribe_request_stream:
  assumes "obs_shape obs = UnaryClientStream
           \<or> (obs_shape obs = Streaming \<and> obs_isRequestStream obs \<and> isUpstreamSubject (obs_args obs))"
  shows "upstream_live (subscribe obs)"
    and "filter is_invoke (log (subscribe obs))
          = [Invoke (obs_methodName obs)
              (if obs_shape obs = Streaming then [arg (obs_args obs) 1]
               else if truthy (arg (obs_args obs) 1) then [arg (obs_args obs) 1, Callback]
               else [Callback])]"
  using assms
  by (auto simp: subscribe_def fresh_def subscriber_def stream_subscribe_def
      unary_stream_subscribe_def Let_def)

lemma subscribe_opens_once: "length (filter is_invoke (log (subscribe obs))) = 1"
  by (simp add: subscribe_def fresh_def subscriber_def stream_subscribe_def
      unary_stream_subscribe_def unary_plain_subscribe_def Let_def split: shape.splits)

lemma subscribe_initial:
  "isClientCanceled (vars (subscribe obs)) = False \<and> \<not> closed (subscribe obs)
   \<and> \<not> finished (subscribe obs)"
  by (simp add: subscribe_def foldl_effect_fields fresh_def subscriber_def stream_subscribe_def
      unary_stream_subscribe_def Let_def split: shape.splits)

lemma update_absent: "map_of al k = None \<Longrightarrow> AList.update k v al = al @ [(k, v)]"
  by (induction al) (auto split: if_splits)

lemma create_returns:
  assumes "createClientByServiceName name p = (Returned c, p')"
  shows "clients p' = AList.update name c (clients p)"
    and "constructed p' = constructed p @ [c]"
    and "ident c = length (constructed p)" and "service c = name"
    and "grpcClients p' = grpcClients p"
  using assms
  by (auto simp: createClientByServiceName_def Let_def split: option.splits if_splits)

lemma create_builds:
  assumes "getClient p name = Some clientRef" and "map_of clientRef name = Some ServiceClient"
  shows "\<exists>c p'. createClientByServiceName name p = (Returned c, p')
           \<and> clients p' = AList.update name c (clients p)
           \<and> constructed p' = constructed p @ [c]
           \<and> ident c = length (constructed p) \<and> service c = name"
  using assms by (simp add: createClientByServiceName_def Let_def)

lemma get_cases:
  assumes "getClientByServiceName name p = (Returned c, p')"
  shows "(map_of (clients p) name = Some c \<and> p' = p)
     \<or> (map_of (clients p) name = None \<and> createClientByServiceName name p = (Returned c, p'))"
  using assms by (auto simp: getClientByServiceName_def split: option.splits)

lemma get_cached:
  assumes "getClientByServiceName name p = (Returned c, p')"
  shows "map_of (clients p') name = Some c"
  using get_cases[OF assms] create_returns(1)[of name p c p']
  by (auto simp: update_conv')

lemma get_again:
  assumes "getClientByServiceName name p = (Returned c, p')"
  shows "getClientByServiceName name p' = (Returned c, p')"
  using get_cached[OF assms] by (simp add: getClientByServiceName_def)

lemma get_first:
  assumes "getClientByServiceName name p = (Returned c, p')"
  shows "case map_of (clients p) name of
           Some c0 \<Rightarrow> c = c0 \<and> p' = p
         | None \<Rightarrow> constructed p' = constructed p @ [c] \<and> ident c = length (constructed p)
                    \<and> service c = name"
  using get_cases[OF assms] create_returns[of name p c p'] by auto

lemma create_consistent:
  assumes "registry_consistent p" and "map_of (clients p) name = None"
  shows "registry_consistent (snd (createClientByServiceName name p))"
proof (cases "getClient p name")
  case None
  then show ?thesis using assms(1) by (simp add: createClientByServiceName_def)
next
  case (Some clientRef)
  show ?thesis
  proof (cases "map_of clientRef name = Some ServiceClient")
    case False
    have "\<And>opts. registry_consistent (p\<lparr>options := opts\<rparr>) = registry_consistent p"
      by (simp add: registry_consistent_def)
    with Some False assms(1) show ?thesis
      by (simp add: createClientByServiceName_def Let_def)
  next
    case True
    with Some obtain c p' where r: "createClientByServiceName name p = (Returned c, p')"
      by (simp add: createClientByServiceName_def Let_def)
    from assms(2) have nin: "name \<notin> fst ` set (clients p)"
      by (simp add: map_of_eq_None_iff)
    from assms(1) have d: "distinct (map service (constructed p))"
      and e: "set (map fst (clients p)) = set (map service (constructed p))"
      by (auto simp: registry_consistent_def)
    from nin e have nin': "name \<notin> set (map service (constructed p))" by simp
    from create_returns[OF r] assms d nin' show ?thesis
      by (simp add: r registry_consistent_def update_absent)
  qed
qed

lemma get_consistent:
  "registry_consistent p \<Longrightarrow> registry_consistent (snd (getClientByServiceName name p))"
  by (cases "map_of (clients p) name")
     (simp_all add: getClientByServiceName_def create_consistent)

lemma lookups_consistent:
  "registry_consistent p \<Longrightarrow> registry_consistent (lookups names p)"
  by (induction names arbitrary: p) (simp_all add: get_consistent)

lemma consistent_distinct:
  "registry_consistent p \<Longrightarrow> distinct (map service (constructed p))"
  by (auto simp: registry_consistent_def)

lemma first_lookup:
  "getClientByServiceName ''HeroService'' a_proxy = (Returned hero_client, a_proxy_with_hero)"
  by (simp add: getClientByServiceName_def createClientByServiceName_def getClient_def
      a_proxy_def a_proxy_with_hero_def hero_client_def getKeepaliveOptions_def keepaliveKeys_def
      keepaliveKeys_at_def inherited_key_def object_prototype_methods_def Let_def)

section \<open>Lemmas about the request stream\<close>

lemma teardown_no_forward: "filter is_forward (snd (teardown s)) = []"
  using teardown_no_observer[of s] by auto

lemma unsubscribe_forward: "filter is_forward (log (unsubscribe s)) = filter is_forward (log s)"
  by (simp add: unsubscribe_fields teardown_no_forward)

lemma perform_forward: "filter is_forward (log (perform s a)) = filter is_forward (log s @ [a])"
  by (cases a) (simp_all add: effect_fields unsubscribe_forward)

lemma foldl_perform_forward:
  "filter is_forward (log (foldl perform s as)) = filter is_forward (log s @ as)"
proof (induction as arbitrary: s)
  case Nil
  then show ?case by simp
next
  case (Cons a as)
  have "filter is_forward (log (foldl perform (perform s a) as))
          = filter is_forward (log (perform s a)) @ filter is_forward as"
    using Cons.IH[of "perform s a"] by simp
  then show ?case by (simp add: perform_forward)
qed

lemma run_handler_forward:
  "filter is_forward (log (run_handler s r)) = filter is_forward (log s) @ filter is_forward (snd r)"
  by (simp add: run_handler_def foldl_perform_forward)

lemma handlers_no_forward:
  "filter is_forward (snd (stream_on_data v d)) = []"
  "filter is_forward (snd (stream_on_error v e)) = []"
  "filter is_forward (snd (stream_on_end v)) = []"
  "filter is_forward (snd (unary_stream_callback v err d)) = []"
  "filter is_forward (unary_plain_callback err d) = []"
  by (simp_all add: stream_on_data_def stream_on_error_def stream_on_end_def
      unary_stream_callback_def unary_plain_callback_def split: option.splits)

lemma step_forward:
  "filter is_forward (log (step s ev))
     = filter is_forward (log s) @ (if upstream_live s then forwarded ev else [])"
  by (cases ev)
     (simp_all add: run_handler_forward handlers_no_forward foldl_effect_fields
        unsubscribe_forward upstream_next_def upstream_error_def upstream_complete_def Let_def
        split: shape.splits)

lemma teardown_no_invoke: "filter is_invoke (snd (teardown s)) = []"
  using teardown_no_observer[of s] by auto

lemma unsubscribe_invoke: "filter is_invoke (log (unsubscribe s)) = filter is_invoke (log s)"
  by (simp add: unsubscribe_fields teardown_no_invoke)

lemma perform_invoke: "filter is_invoke (log (perform s a)) = filter is_invoke (log s @ [a])"
  by (cases a) (simp_all add: effect_fields unsubscribe_invoke)

lemma foldl_perform_invoke:
  "filter is_invoke (log (foldl perform s as)) = filter is_invoke (log s @ as)"
proof (induction as arbitrary: s)
  case Nil
  then show ?case by simp
next
  case (Cons a as)
  have "filter is_invoke (log (foldl perform (perform s a) as))
          = filter is_invoke (log (perform s a)) @ filter is_invoke as"
    using Cons.IH[of "perform s a"] by simp
  then show ?case by (simp add: perform_invoke)
qed

lemma step_invoke: "filter is_invoke (log (step s ev)) = filter is_invoke (log s)"
  by (cases ev)
     (simp_all add: run_handler_def foldl_perform_invoke foldl_effect_fields unsubscribe_invoke
        stream_on_data_def stream_on_error_def stream_on_end_def unary_stream_callback_def
        unary_plain_callback_def upstream_next_def upstream_error_def upstream_complete_def
        Let_def split: shape.splits option.splits)

lemma run_invoke: "filter is_invoke (log (run s evs)) = filter is_invoke (log s)"
  unfolding run_def by (induction evs arbitrary: s) (simp_all add: step_invoke)

lemma count_list_filter: "P a \<Longrightarrow> count_list (filter P xs) a = count_list xs a"
  by (induction xs) auto

lemma step_count_End:
  "count_list (log (step s ev)) End
     = count_list (log s) End + (if upstream_live s \<and> ev = UpstreamComplete then 1 else 0)"
proof -
  have "count_list (log (step s ev)) End = count_list (filter is_forward (log (step s ev))) End"
    by (simp add: count_list_filter)
  also have "\<dots> = count_list (filter is_forward (log s)) End
        + count_list (if upstream_live s then forwarded ev else []) End"
    by (simp add: step_forward)
  also have "count_list (filter is_forward (log s)) End = count_list (log s) End"
    by (simp add: count_list_filter)
  also have "count_list (if upstream_live s then forwarded ev else []) End
        = (if upstream_live s \<and> ev = UpstreamComplete then 1 else 0)"
    by (cases ev) (simp_all add: upstream_next_def upstream_error_def upstream_complete_def)
  finally show ?thesis .
qed

lemma step_dead: "\<not> upstream_live s \<Longrightarrow> closed s \<Longrightarrow> \<not> upstream_live (step s ev)"
  by (cases ev)
     (simp_all add: handler_defs unsubscribe_closed split: shape.splits option.splits)

lemma step_live_open:
  assumes "\<not> closed s" and "isClientCanceled (vars s) = False"
    and "upstream_live s \<longrightarrow> shape s = UnaryClientStream
           \<or> (shape s = Streaming \<and> upstreamSubscription (vars s) \<noteq> None)"
  shows "upstream_live (step s ev)
           = (upstream_live s \<and> \<not> is_upstream_terminal ev \<and> \<not> closed (step s ev))
     \<and> (upstream_live (step s ev) \<longrightarrow> shape (step s ev) = UnaryClientStream
           \<or> (shape (step s ev) = Streaming \<and> upstreamSubscription (vars (step s ev)) \<noteq> None))"
proof (cases ev)
  case (CallData d)
  then show ?thesis using assms by (auto simp: handler_defs)
next
  case (CallError e)
  then show ?thesis using assms
    by (auto simp: handler_defs teardown_defs unsubscribe_def Let_def split: option.splits)
next
  case CallEnd
  then show ?thesis using assms
    by (auto simp: handler_defs teardown_defs unsubscribe_def Let_def split: option.splits)
next
  case (CallbackFired err d)
  then show ?thesis using assms
    by (auto simp: handler_defs teardown_defs unsubscribe_def Let_def
        split: option.splits shape.splits)
next
  case CallFinished
  then show ?thesis using assms by auto
next
  case (UpstreamNext v)
  then show ?thesis using assms by (auto simp: handler_defs)
next
  case (UpstreamError e)
  then show ?thesis using assms
    by (auto simp: handler_defs teardown_defs unsubscribe_def Let_def split: option.splits)
next
  case UpstreamComplete
  then show ?thesis using assms by (auto simp: handler_defs)
next
  case Unsubscribe
  then show ?thesis using assms
    by (auto simp: teardown_defs unsubscribe_def Let_def split: option.splits shape.splits)
qed

lemma step_upstream_inv:
  assumes "sub_inv s" and "upstream_inv s"
  shows "upstream_inv (step s ev)
     \<and> upstream_live (step s ev)
          = (upstream_live s \<and> \<not> is_upstream_terminal ev \<and> \<not> closed (step s ev))"
proof (cases "closed s")
  case True
  with assms(2) have d: "\<not> upstream_live s" and c: "count_list (log s) End \<le> 1"
    by (auto simp: upstream_inv_def split: if_splits)
  from step_dead[OF d True] have d': "\<not> upstream_live (step s ev)" .
  with d c show ?thesis by (simp add: upstream_inv_def step_count_End)
next
  case False
  with assms(1) have nc: "isClientCanceled (vars s) = False"
    by (simp add: sub_inv_def open_inv_def)
  from assms(2) have sh: "upstream_live s \<longrightarrow> shape s = UnaryClientStream
           \<or> (shape s = Streaming \<and> upstreamSubscription (vars s) \<noteq> None)"
    by (simp add: upstream_inv_def split: if_splits)
  from assms(2) have c: "count_list (log s) End \<le> 1"
    and c0: "upstream_live s \<longrightarrow> count_list (log s) End = 0"
    by (auto simp: upstream_inv_def split: if_splits)
  note l = step_live_open[OF False nc sh, of ev]
  have t: "ev = UpstreamComplete \<Longrightarrow> is_upstream_terminal ev" by simp
  from l c c0 t show ?thesis
    by (auto simp: upstream_inv_def step_count_End)
qed

lemma run_invs: "sub_inv s \<Longrightarrow> upstream_inv s \<Longrightarrow> sub_inv (run s evs) \<and> upstream_inv (run s evs)"
  unfolding run_def
proof (induction evs arbitrary: s)
  case Nil
  then show ?case by simp
next
  case (Cons ev evs)
  from Cons.prems have "sub_inv (step s ev)" and "upstream_inv (step s ev)"
    using step_inv step_upstream_inv by blast+
  then show ?case using Cons.IH by simp
qed

lemma subscribe_upstream_inv: "upstream_inv (subscribe obs)"
  by (simp add: upstream_inv_def subscribe_def fresh_def subscriber_def stream_subscribe_def
      unary_stream_subscribe_def unary_plain_subscribe_def Let_def split: shape.splits)

lemma subscribe_no_forward: "filter is_forward (log (subscribe obs)) = []"
  by (simp add: subscribe_def fresh_def subscriber_def stream_subscribe_def
      unary_stream_subscribe_def unary_plain_subscribe_def Let_def split: shape.splits)

lemma upstream_inv_count: "upstream_inv s \<Longrightarrow> count_list (log s) End \<le> 1"
  by (auto simp: upstream_inv_def split: if_splits)

section \<open>The claims\<close>

text \<open>
  C1. For every unary invocation the response stream delivers at most one value, and a value
  is followed by completion and nothing else (\<open>unary_outcome\<close>, for every sequence of
  events). While the subscriber is open nothing has been delivered yet; the success callback
  then delivers exactly one next followed by one complete, the error callback exactly one
  error and no value, and whatever happens afterwards delivers nothing more.
\<close>

theorem unary_response_single_value:
  assumes "obs_shape obs \<noteq> Streaming" and "s = run (subscribe obs) evs"
  shows "unary_outcome (delivered s)
     \<and> (closed s \<or>
          (delivered s = []
           \<and> delivered (step s (CallbackFired None d)) = [ObserverNext d, ObserverComplete]
           \<and> delivered (step s (CallbackFired (Some e) d)) = [ObserverError (serializeError e)]
           \<and> delivered (run (step s (CallbackFired err d)) evs')
               = delivered (step s (CallbackFired err d))))"
proof -
  have sh: "shape s \<noteq> Streaming"
    using assms by (simp add: run_shape subscribe_shape)
  have inv: "sub_inv s"
    using assms(2) reachable_inv by simp
  have out: "unary_outcome (delivered s)"
    using inv sh by (rule sub_inv_unary)
  show ?thesis
  proof (cases "closed s")
    case True
    with out show ?thesis by simp
  next
    case False
    with inv have op: "open_inv s" by (simp add: sub_inv_def)
    with sh have d0: "delivered s = []" and nc: "isClientCanceled (vars s) = False"
      by (auto simp: open_inv_def)
    from callback_open[OF False sh nc] d0 run_closed[of "step s (CallbackFired err d)" evs'] out
    show ?thesis by simp
  qed
qed

theorem unary_response_single_value_witness:
  "delivered (step (run (subscribe plain_observable) []) (CallbackFired None (Plain 9)))
      = [ObserverNext (Plain 9), ObserverComplete]
   \<and> delivered (step (run (subscribe upload_observable) [UpstreamNext (Plain 4)])
        (CallbackFired (Some cancelled_error) Undefined))
      = [ObserverError (serializeError cancelled_error)]"
proof -
  let ?p = "run (subscribe plain_observable) []"
  let ?u = "run (subscribe upload_observable) [UpstreamNext (Plain 4)]"
  have a: "\<not> closed ?p"
    by (simp add: run_def subscribe_def fresh_def subscriber_def plain_observable_def
        unary_plain_subscribe_def)
  have b: "\<not> closed ?u"
    by (simp add: run_def subscribe_def fresh_def subscriber_def upload_observable_def
        unary_stream_subscribe_def upstream_next_def Let_def arg_def)
  have p: "obs_shape plain_observable \<noteq> Streaming"
    by (simp add: plain_observable_def)
  have u: "obs_shape upload_observable \<noteq> Streaming"
    by (simp add: upload_observable_def)
  from unary_response_single_value[OF p refl, of "[]" "Plain 9" cancelled_error None "[]"] a
  have 1: "delivered (step ?p (CallbackFired None (Plain 9)))
             = [ObserverNext (Plain 9), ObserverComplete]"
    by blast
  from unary_response_single_value[OF u refl, of "[UpstreamNext (Plain 4)]" Undefined
         cancelled_error None "[]"] b
  have 2: "delivered (step ?u (CallbackFired (Some cancelled_error) Undefined))
             = [ObserverError (serializeError cancelled_error)]"
    by blast
  from 1 2 show ?thesis by (rule conjI)
qed

text \<open>
  C2, as amended. In the client-streaming shape of the unary adapter, an error callback
  whose error denotes cancellation (\<^verbatim>\<open>details\<close> is "Cancelled" or \<^verbatim>\<open>code\<close> is 1), fired
  while \<^verbatim>\<open>isClientCanceled\<close> is true, destroys the Call Handle and calls nothing on the
  observer; and the teardown of a call that is not finished assigns \<^verbatim>\<open>isClientCanceled\<close>
  before it issues \<^verbatim>\<open>cancel()\<close>. The plain-request shape has no Cancellation State: its
  teardown only issues \<^verbatim>\<open>cancel()\<close>, its error callback never destroys the call and always
  hands the normalized error to the observer, whose subscriber, closed by the unsubscribe,
  discards it.
\<close>

theorem unary_cancellation_silent_in_client_stream_shape:
  assumes "is_cancel_error e"
  shows "(isClientCanceled v \<longrightarrow> unary_stream_callback v (Some e) d = (v, [Destroy]))
     \<and> unary_stream_teardown v False
         = (v\<lparr>isClientCanceled := True\<rparr>, [UpstreamUnsubscribe, SetClientCanceled, Cancel])
     \<and> (shape s = UnaryClientStream \<and> \<not> closed s \<and> \<not> finished s \<longrightarrow>
          log (run s [Unsubscribe, CallbackFired (Some e) d])
            = log s @ [UpstreamUnsubscribe, SetClientCanceled, Cancel, Destroy]
          \<and> isClientCanceled (vars (run s [Unsubscribe]))
          \<and> delivered (run s [Unsubscribe, CallbackFired (Some e) d]) = delivered s)
     \<and> unary_plain_teardown False = [Cancel]
     \<and> unary_plain_callback (Some e) d = [ObserverError (serializeError e)]
     \<and> (shape s = UnaryPlain \<and> \<not> closed s \<and> \<not> finished s \<longrightarrow>
          log (run s [Unsubscribe, CallbackFired (Some e) d])
            = log s @ [Cancel, ObserverError (serializeError e)]
          \<and> vars (run s [Unsubscribe]) = vars s
          \<and> delivered (run s [Unsubscribe, CallbackFired (Some e) d]) = delivered s)"
  using assms
  by (simp add: run_def handler_defs teardown_defs unsubscribe_def)

theorem unary_cancellation_silent_witness:
  "unary_stream_callback \<lparr>isClientCanceled = True, upstreamSubscription = Some 3\<rparr>
       (Some cancelled_error) Undefined
     = (\<lparr>isClientCanceled = True, upstreamSubscription = Some 3\<rparr>, [Destroy])
   \<and> log (run (subscribe upload_observable) [Unsubscribe, CallbackFired (Some cancelled_error) Undefined])
     = log (subscribe upload_observable) @ [UpstreamUnsubscribe, SetClientCanceled, Cancel, Destroy]"
proof -
  have c: "is_cancel_error cancelled_error"
    by (simp add: is_cancel_error_def cancelled_error_def)
  have o: "shape (subscribe upload_observable) = UnaryClientStream
           \<and> \<not> closed (subscribe upload_observable) \<and> \<not> finished (subscribe upload_observable)"
    by (simp add: subscribe_def foldl_effect_fields fresh_def upload_observable_def)
  from unary_cancellation_silent_in_client_stream_shape[OF c,
         of "\<lparr>isClientCanceled = True, upstreamSubscription = Some 3\<rparr>" Undefined
            "subscribe upload_observable"] o
  show ?thesis by simp
qed

text \<open>
  The claim as stated fails in the plain-request shape: after an unsubscribe and a
  cancellation error the log holds \<^verbatim>\<open>cancel()\<close> with no assignment before it, no
  \<^verbatim>\<open>destroy()\<close>, and a call of \<^verbatim>\<open>observer.error\<close>.
\<close>

theorem plain_unary_has_no_cancellation_state:
  "log (run (subscribe plain_observable) [Unsubscribe, CallbackFired (Some cancelled_error) Undefined])
     = [Invoke ''findOne'' [Plain 7, Callback], Cancel, ObserverError (serializeError cancelled_error)]
   \<and> isClientCanceled (vars (run (subscribe plain_observable) [Unsubscribe])) = False"
  by (simp add: run_def subscribe_def fresh_def subscriber_def plain_observable_def
      unary_plain_subscribe_def handler_defs teardown_defs unsubscribe_def)

text \<open>
  C3. In the streaming adapter an error is taken for a cancellation by its \<^verbatim>\<open>details\<close>
  alone (line 194); the status code 1 is not looked at, as it is in the unary callback
  (line 243). An error with code 1 and other details, arriving after the consumer
  cancelled, does not destroy the Call Handle and is handed to \<^verbatim>\<open>observer.error\<close>
  (nor is the call destroyed when the consumer did not cancel); the unary callback given
  the same error destroys the call and stays silent.
\<close>

theorem stream_on_error_misses_status_code:
  "stream_on_error \<lparr>isClientCanceled = True, upstreamSubscription = None\<rparr>
       \<lparr>details = Some ''Cancelled on client'', code = Some 1\<rparr>
     = (\<lparr>isClientCanceled = True, upstreamSubscription = None\<rparr>,
        [ObserverError (serializeError \<lparr>details = Some ''Cancelled on client'', code = Some 1\<rparr>)])
   \<and> stream_on_error \<lparr>isClientCanceled = False, upstreamSubscription = None\<rparr>
       \<lparr>details = Some ''Cancelled on client'', code = Some 1\<rparr>
     = (\<lparr>isClientCanceled = False, upstreamSubscription = None\<rparr>,
        [ObserverError (serializeError \<lparr>details = Some ''Cancelled on client'', code = Some 1\<rparr>)])
   \<and> unary_stream_callback \<lparr>isClientCanceled = True, upstreamSubscription = None\<rparr>
       (Some \<lparr>details = Some ''Cancelled on client'', code = Some 1\<rparr>) Undefined
     = (\<lparr>isClientCanceled = True, upstreamSubscription = None\<rparr>, [Destroy])"
  by (simp add: stream_on_error_def unary_stream_callback_def is_cancel_error_def GRPC_CANCELLED_def)

text \<open>
  C4, as amended. Cancelling a response stream that has not yet closed is idempotent, and
  \<^verbatim>\<open>cancel()\<close> is issued on the Call Handle exactly once over the whole life of the
  subscription when the call was not finished (never before the cancellation, once at it,
  never after it, whatever events follow). When the call has already finished, no
  \<^verbatim>\<open>cancel()\<close> is ever issued and the Cancellation State is left as it was; the only thing
  done is the release of the Upstream Subscription where one is held (always in the
  client-streaming unary shape, and in the streaming adapter when \<^verbatim>\<open>upstreamSubscription\<close>
  is set).
\<close>

theorem cancellation_idempotent_cancel_once:
  assumes "s = run (subscribe obs) evs" and "\<not> closed s"
  shows "step (step s Unsubscribe) Unsubscribe = step s Unsubscribe
     \<and> count_list (log s) Cancel = 0
     \<and> count_list (log (run (step s Unsubscribe) evs')) Cancel = (if finished s then 0 else 1)
     \<and> (finished s \<longrightarrow>
          isClientCanceled (vars (step s Unsubscribe)) = isClientCanceled (vars s)
          \<and> log (step s Unsubscribe)
              = log s @ (if shape s = UnaryClientStream
                            \<or> (shape s = Streaming \<and> upstreamSubscription (vars s) \<noteq> None)
                         then [UpstreamUnsubscribe] else []))"
proof -
  have "sub_inv s" using assms(1) reachable_inv by simp
  with assms(2) have c0: "count_list (log s) Cancel = 0"
    by (simp add: sub_inv_def open_inv_def)
  have cl: "closed (step s Unsubscribe)" by (simp add: unsubscribe_fields)
  have "count_list (log (step s Unsubscribe)) Cancel = (if finished s then 0 else 1)"
    using assms(2) c0 by (simp add: unsubscribe_fields teardown_cancel_count)
  with run_closed[OF cl, of evs']
  have c1: "count_list (log (run (step s Unsubscribe) evs')) Cancel = (if finished s then 0 else 1)"
    by simp
  from c0 c1 unsubscribe_log_finished[OF assms(2)] show ?thesis
    by (simp add: unsubscribe_idem)
qed

theorem cancellation_idempotent_witness:
  "count_list (log (run (step (run (subscribe watch_observable) [CallData (Plain 1)]) Unsubscribe)
       [Unsubscribe, CallError cancelled_error, CallEnd])) Cancel = 1"
proof -
  let ?s = "run (subscribe watch_observable) [CallData (Plain 1)]"
  have o: "\<not> closed ?s \<and> \<not> finished ?s"
    by (simp add: run_def subscribe_def fresh_def subscriber_def watch_observable_def
        stream_subscribe_def isUpstreamSubject_def arg_def handler_defs Let_def)
  from cancellation_idempotent_cancel_once[OF refl, of watch_observable "[CallData (Plain 1)]"
         "[Unsubscribe, CallError cancelled_error, CallEnd]"] o
  show ?thesis by simp
qed

text \<open>
  The claim as stated calls the cancellation of a finished call a no-op without any change
  of state. For a streaming call with a request stream it is not: the request stream is
  unsubscribed and \<^verbatim>\<open>upstreamSubscription\<close> goes from the subscription to \<^verbatim>\<open>null\<close>.
\<close>

theorem cancel_after_finish_releases_upstream:
  "log (run (subscribe watch_observable) [CallFinished, Unsubscribe])
     = log (run (subscribe watch_observable) [CallFinished]) @ [UpstreamUnsubscribe]
   \<and> upstreamSubscription (vars (run (subscribe watch_observable) [CallFinished])) = Some 3
   \<and> upstreamSubscription (vars (run (subscribe watch_observable) [CallFinished, Unsubscribe])) = None"
  by (simp add: run_def subscribe_def fresh_def subscriber_def watch_observable_def
      stream_subscribe_def isUpstreamSubject_def arg_def Let_def teardown_defs unsubscribe_def)

text \<open>
  C5, as amended. For every invocation and every sequence of events, what the response
  stream delivers is well terminated: values, then at most one terminal event, then nothing.
  On a graceful end the streaming adapter unregisters its listeners from the Call Handle,
  after which no transport event reaches it. On an error it does not: the listeners stay
  registered, and it is the subscriber, closed by the first terminal event, that discards
  what the adapter calls on the observer afterwards.
\<close>

theorem response_stream_terminates_once:
  assumes "s = run (subscribe obs) evs"
  shows "well_terminated (delivered s)
     \<and> (shape s = Streaming \<and> listening s \<longrightarrow>
          \<not> listening (step s CallEnd)
          \<and> step (step s CallEnd) (CallData d) = step s CallEnd
          \<and> step (step s CallEnd) (CallError e) = step s CallEnd
          \<and> step (step s CallEnd) CallEnd = step s CallEnd
          \<and> listening (step s (CallError e)))"
proof -
  have "well_terminated (delivered s)"
    using assms reachable_inv sub_inv_well_terminated by simp
  moreover have "listening s \<Longrightarrow> shape s = Streaming \<Longrightarrow> \<not> listening (step s CallEnd)"
    by (simp add: handler_defs unsubscribe_listening split: option.splits)
  ultimately show ?thesis
    using step_error_keeps_listening[of s e] by auto
qed

theorem response_stream_terminates_once_witness:
  "well_terminated (delivered (run (subscribe watch_observable) [CallData (Plain 1), CallEnd, CallError unknown_error]))
   \<and> \<not> listening (step (run (subscribe watch_observable) [CallData (Plain 1)]) CallEnd)"
proof -
  let ?s = "run (subscribe watch_observable) [CallData (Plain 1)]"
  have o: "shape ?s = Streaming \<and> listening ?s"
    by (simp add: run_def subscribe_def fresh_def subscriber_def watch_observable_def
        stream_subscribe_def isUpstreamSubject_def arg_def handler_defs Let_def)
  from response_stream_terminates_once[OF refl, of watch_observable
         "[CallData (Plain 1), CallEnd, CallError unknown_error]"]
       response_stream_terminates_once[OF refl, of watch_observable "[CallData (Plain 1)]"] o
  show ?thesis by blast
qed

text \<open>
  The claim as stated has the listeners unregistered on an error too. After an error they
  are still registered, and a following \<^verbatim>\<open>end\<close> makes the adapter call
  \<^verbatim>\<open>observer.complete()\<close> after \<^verbatim>\<open>observer.error()\<close>.
\<close>

theorem listeners_stay_after_error:
  "listening (run (subscribe watch_observable) [CallError unknown_error])
   \<and> filter is_terminal (log (run (subscribe watch_observable) [CallError unknown_error, CallEnd]))
       = [ObserverError (serializeError unknown_error), ObserverComplete]"
  by (simp add: run_def subscribe_def fresh_def subscriber_def watch_observable_def
      stream_subscribe_def isUpstreamSubject_def arg_def Let_def handler_defs teardown_defs
      unsubscribe_def unknown_error_def GRPC_CANCELLED_def)

text \<open>
  C6. For a method flagged \<^verbatim>\<open>requestStream\<close> and a first argument whose \<^verbatim>\<open>subscribe\<close> is a
  function, whichever adapter the method is routed to, and whatever events (responses,
  errors, the completion callback, \<^verbatim>\<open>finished\<close>, unsubscribes) have occurred since the
  subscription: the call is opened exactly once, at subscription, with the metadata and no
  request value (the streaming adapter passes \<^verbatim>\<open>maybeMetadata\<close> alone; the unary adapter
  passes it when truthy, followed by the completion callback); while the Upstream
  Subscription is live each value of the request stream becomes exactly one \<^verbatim>\<open>write\<close>, its
  error one \<^verbatim>\<open>error\<close> event on the call and its completion one \<^verbatim>\<open>end()\<close>, in the order of
  emission, and no other event writes to, ends or emits on the call; the Upstream
  Subscription stays live until the request stream terminates or the response stream closes,
  and never comes back; so the call is ended at most once, and only by the completion of
  the request stream.
\<close>

theorem request_stream_forwarded:
  assumes "client methodName = Some m" and "requestStream m" and "isUpstreamSubject args"
    and "createServiceMethod client methodName = Inr sm"
  shows "\<exists>obs. invoke sm client args = Inr obs
     \<and> upstream_live (subscribe obs)
     \<and> filter is_forward (log (subscribe obs)) = []
     \<and> filter is_invoke (log (run (subscribe obs) evs))
         = [Invoke methodName
             (if responseStream m then [arg args 1]
              else if truthy (arg args 1) then [arg args 1, Callback] else [Callback])]
     \<and> filter is_forward (log (step (run (subscribe obs) evs) ev))
         = filter is_forward (log (run (subscribe obs) evs))
           @ (if upstream_live (run (subscribe obs) evs) then forwarded ev else [])
     \<and> upstream_live (step (run (subscribe obs) evs) ev)
         = (upstream_live (run (subscribe obs) evs) \<and> \<not> is_upstream_terminal ev
            \<and> \<not> closed (step (run (subscribe obs) evs) ev))
     \<and> count_list (log (run (subscribe obs) evs)) End \<le> 1
     \<and> log (run (subscribe obs) (map UpstreamNext vs @ [UpstreamComplete]))
         = log (subscribe obs) @ map Write vs @ [End]
     \<and> (list_all is_upstream_event ups \<longrightarrow>
          run (subscribe obs) (map UpstreamNext vs @ [UpstreamComplete] @ ups)
            = run (subscribe obs) (map UpstreamNext vs @ [UpstreamComplete]))
     \<and> prefix (log (subscribe obs) @ map Write vs @ [Emit e])
         (log (run (subscribe obs) (map UpstreamNext vs @ [UpstreamError e])))"
proof -
  define obs where "obs = \<lparr>obs_shape = (if responseStream m then Streaming else UnaryClientStream),
      obs_methodName = methodName, obs_isRequestStream = True, obs_args = args\<rparr>"
  have inv: "invoke sm client args = Inr obs"
    using assms by (auto simp: createServiceMethod_def createStreamServiceMethod_def
        createUnaryServiceMethod_def invoke_def obs_def)
  have rs: "obs_shape obs = UnaryClientStream
           \<or> (obs_shape obs = Streaming \<and> obs_isRequestStream obs \<and> isUpstreamSubject (obs_args obs))"
    using assms(3) by (simp add: obs_def)
  note live = subscribe_request_stream(1)[OF rs]
  have opened: "filter is_invoke (log (run (subscribe obs) evs))
         = [Invoke methodName
             (if responseStream m then [arg args 1]
              else if truthy (arg args 1) then [arg args 1, Callback] else [Callback])]"
    using subscribe_request_stream(2)[OF rs] by (simp add: run_invoke) (simp add: obs_def)
  have invs: "sub_inv (run (subscribe obs) evs) \<and> upstream_inv (run (subscribe obs) evs)"
    using run_invs[OF inv_subscribe subscribe_upstream_inv] .
  then have lv: "upstream_live (step (run (subscribe obs) evs) ev)
         = (upstream_live (run (subscribe obs) evs) \<and> \<not> is_upstream_terminal ev
            \<and> \<not> closed (step (run (subscribe obs) evs) ev))"
    using step_upstream_inv by blast
  from invs have cnt: "count_list (log (run (subscribe obs) evs)) End \<le> 1"
    using upstream_inv_count by blast
  let ?s = "run (subscribe obs) (map UpstreamNext vs)"
  have vals: "?s = (subscribe obs)\<lparr>log := log (subscribe obs) @ map Write vs\<rparr>"
    using live by (rule run_upstream_values)
  have live': "upstream_live ?s" using live by (simp add: vals)
  have fin: "run (subscribe obs) (map UpstreamNext vs @ [UpstreamComplete])
        = ?s\<lparr>upstream_live := False, log := log ?s @ [End]\<rparr>"
    using live' by (simp add: run_append run_def upstream_complete_def)
  have ended: "log (run (subscribe obs) (map UpstreamNext vs @ [UpstreamComplete]))
         = log (subscribe obs) @ map Write vs @ [End]"
    by (simp add: fin) (simp add: vals)
  have dead: "\<not> upstream_live (run (subscribe obs) (map UpstreamNext vs @ [UpstreamComplete]))"
    by (simp add: fin)
  have once: "list_all is_upstream_event ups \<Longrightarrow>
          run (subscribe obs) (map UpstreamNext vs @ [UpstreamComplete] @ ups)
            = run (subscribe obs) (map UpstreamNext vs @ [UpstreamComplete])"
    using run_upstream_dead[OF dead, of ups]
      run_append[of "subscribe obs" "map UpstreamNext vs @ [UpstreamComplete]" ups]
    by simp
  have lg: "log ?s = log (subscribe obs) @ map Write vs"
    by (simp add: vals)
  have "prefix (log ?s @ [Emit e]) (log (step ?s (UpstreamError e)))"
    using live' by (rule upstream_error_log)
  then have err: "prefix (log (subscribe obs) @ map Write vs @ [Emit e])
         (log (run (subscribe obs) (map UpstreamNext vs @ [UpstreamError e])))"
    by (simp only: run_snoc lg append_assoc)
  from inv live subscribe_no_forward[of obs] opened step_forward[of "run (subscribe obs) evs" ev]
    lv cnt ended once err
  show ?thesis by blast
qed

theorem request_stream_forwarded_witness:
  "invoke (StreamServiceMethod ''chat'') client_c [Subscribable 3, Plain 1] = Inr chat_observable
   \<and> filter is_invoke (log (run (subscribe chat_observable)
        [UpstreamNext (Plain 4), CallData (Plain 8), CallFinished])) = [Invoke ''chat'' [Plain 1]]
   \<and> filter is_forward (log (step (run (subscribe chat_observable)
        [UpstreamNext (Plain 4), CallData (Plain 8), CallFinished]) (UpstreamNext (Plain 5))))
      = filter is_forward (log (run (subscribe chat_observable)
        [UpstreamNext (Plain 4), CallData (Plain 8), CallFinished])) @ [Write (Plain 5)]
   \<and> log (run (subscribe chat_observable) (map UpstreamNext [Plain 4, Plain 5] @ [UpstreamComplete]))
         = log (subscribe chat_observable) @ [Write (Plain 4), Write (Plain 5), End]"
proof -
  let ?evs = "[UpstreamNext (Plain 4), CallData (Plain 8), CallFinished]"
  have 1: "client_c ''chat'' = Some \<lparr>requestStream = True, responseStream = True\<rparr>"
    by (simp add: client_c_def)
  have 2: "requestStream \<lparr>requestStream = True, responseStream = True\<rparr>" by simp
  have 3: "isUpstreamSubject [Subscribable 3, Plain 1]"
    by (simp add: isUpstreamSubject_def arg_def)
  have 4: "createServiceMethod client_c ''chat'' = Inr (StreamServiceMethod ''chat'')"
    by (simp add: createServiceMethod_def client_c_def createStreamServiceMethod_def)
  have 5: "invoke (StreamServiceMethod ''chat'') client_c [Subscribable 3, Plain 1]
             = Inr chat_observable"
    by (simp add: invoke_def client_c_def chat_observable_def)
  have 6: "upstream_live (run (subscribe chat_observable) ?evs)"
    by (simp add: run_def subscribe_def fresh_def subscriber_def chat_observable_def
        stream_subscribe_def isUpstreamSubject_def arg_def handler_defs Let_def)
  from request_stream_forwarded[OF 1 2 3 4, of ?evs "UpstreamNext (Plain 5)"
         "[Plain 4, Plain 5]" "[]" cancelled_error] 5 6
  show ?thesis by (auto simp: arg_def upstream_next_def)
qed

text \<open>
  C7. For every resolved method, \<open>createServiceMethod\<close> reads the \<^verbatim>\<open>responseStream\<close> flag
  of the method descriptor when the service method is built, and routes to the streaming
  adapter when the flag is true and to the unary adapter otherwise. The flag is read once, at
  construction: the client a later call sees (\<open>client'\<close>, whose descriptor \<open>m'\<close> may carry
  another flag) does not change the route. The function has no state to change.
\<close>

theorem createServiceMethod_routes_on_responseStream:
  assumes "client methodName = Some m" and "client' methodName = Some m'"
  shows "\<exists>sm obs. createServiceMethod client methodName = Inr sm
           \<and> sm = (if responseStream m then createStreamServiceMethod client methodName
                   else createUnaryServiceMethod client methodName)
           \<and> invoke sm client' args = Inr obs
           \<and> (obs_shape obs = Streaming) = responseStream m
           \<and> obs_methodName obs = methodName \<and> obs_args obs = args"
  using assms
  by (simp add: createServiceMethod_def createStreamServiceMethod_def
      createUnaryServiceMethod_def invoke_def)

theorem createServiceMethod_routes_witness:
  "\<exists>sm obs. createServiceMethod client_a ''findMany'' = Inr sm
      \<and> sm = StreamServiceMethod ''findMany''
      \<and> invoke sm client_b [Plain 1] = Inr obs
      \<and> obs_shape obs = Streaming"
  using createServiceMethod_routes_on_responseStream
          [of client_a "''findMany''" "\<lparr>requestStream = False, responseStream = True\<rparr>"
              client_b "\<lparr>requestStream = True, responseStream = False\<rparr>" "[Plain 1]"]
  by (auto simp: client_a_def client_b_def createStreamServiceMethod_def)

text \<open>
  C8. Invoking a generated service method leaves the world as it is: no call is opened.
  Subscribing to the returned response stream adds one subscription with its own Call
  Handle (exactly one call is opened) and its own closure variables, \<^verbatim>\<open>isClientCanceled\<close>
  false (the plain unary shape declares no such variable and never sets it). Two
  subscriptions to the same response stream have different handles, and an event delivered
  to one subscription leaves every other subscription untouched.
\<close>

theorem service_method_invocation_is_lazy:
  "snd (invoke_in sm client args w) = w
   \<and> calls_opened (snd (invoke_in sm client args w)) = calls_opened w
   \<and> subscribe_in obs w = (length w, w @ [subscribe obs])
   \<and> calls_opened (snd (subscribe_in obs w)) = calls_opened w + 1
   \<and> isClientCanceled (vars (subscribe obs)) = False
   \<and> \<not> closed (subscribe obs) \<and> \<not> finished (subscribe obs)
   \<and> fst (subscribe_in obs w) \<noteq> fst (subscribe_in obs (snd (subscribe_in obs w)))
   \<and> deliver (length w) ev (snd (subscribe_in obs (snd (subscribe_in obs w)))) ! (length w + 1)
       = subscribe obs
   \<and> deliver (length w + 1) ev (snd (subscribe_in obs (snd (subscribe_in obs w)))) ! length w
       = subscribe obs
   \<and> (i \<noteq> j \<longrightarrow> deliver i ev w ! j = w ! j)"
  using subscribe_initial[of obs]
  by (simp add: invoke_in_def subscribe_in_def calls_opened_def subscribe_opens_once deliver_def
      nth_append)

theorem service_method_invocation_is_lazy_witness:
  "calls_opened (snd (invoke_in (StreamServiceMethod ''chat'') client_c [Subscribable 3, Plain 1] [])) = 0
   \<and> calls_opened (snd (subscribe_in watch_observable [])) = 1
   \<and> deliver 0 Unsubscribe [subscribe watch_observable, subscribe watch_observable] ! 1
       = subscribe watch_observable"
proof -
  have z: "calls_opened [] = 0" by (simp add: calls_opened_def)
  have n: "(0::nat) \<noteq> 1" by simp
  from service_method_invocation_is_lazy[of "StreamServiceMethod ''chat''" client_c
      "[Subscribable 3, Plain 1]" "[]" watch_observable Unsubscribe 0 1] z
  have a: "calls_opened (snd (invoke_in (StreamServiceMethod ''chat'') client_c
             [Subscribable 3, Plain 1] [])) = 0"
    and b: "calls_opened (snd (subscribe_in watch_observable [])) = 1"
    by (elim conjE, simp only: z add_0)+
  from service_method_invocation_is_lazy[of "StreamServiceMethod ''chat''" client_c
      "[Subscribable 3, Plain 1]" "[subscribe watch_observable, subscribe watch_observable]"
      watch_observable Unsubscribe 0 1] n
  have c: "deliver 0 Unsubscribe [subscribe watch_observable, subscribe watch_observable] ! 1
       = subscribe watch_observable"
    by (elim conjE) simp
  from a b c show ?thesis by simp
qed

text \<open>
  C9, as amended. The seven refused operations leave the proxy as it was and carry a message
  that says "not supported". \<^verbatim>\<open>status\<close>, \<^verbatim>\<open>send\<close>, \<^verbatim>\<open>publish\<close>, \<^verbatim>\<open>on\<close> and \<^verbatim>\<open>unwrap\<close>
  raise at the call site. \<^verbatim>\<open>connect\<close> and \<^verbatim>\<open>dispatchEvent\<close> are declared \<^verbatim>\<open>async\<close>: they
  return a promise rejected with the error.
\<close>

theorem unsupported_operations_refused:
  "snd (status p) = p \<and> snd (connect p) = p \<and> snd (send pattern data p) = p
   \<and> snd (publish packet callback p) = p \<and> snd (dispatchEvent packet p) = p
   \<and> snd (on event callback p) = p \<and> snd (unwrap p) = p
   \<and> raised_at_call_site (fst (status p)) \<and> raised_at_call_site (fst (send pattern data p))
   \<and> raised_at_call_site (fst (publish packet callback p))
   \<and> raised_at_call_site (fst (on event callback p)) \<and> raised_at_call_site (fst (unwrap p))
   \<and> fst (connect p) = ReturnsRejected (Error (message_of (fst (connect p))))
   \<and> fst (dispatchEvent packet p) = ReturnsRejected (Error (message_of (fst (dispatchEvent packet p))))
   \<and> sublist ''not supported'' (message_of (fst (status p)))
   \<and> sublist ''not supported'' (message_of (fst (connect p)))
   \<and> sublist ''not supported'' (message_of (fst (send pattern data p)))
   \<and> sublist ''not supported'' (message_of (fst (publish packet callback p)))
   \<and> sublist ''not supported'' (message_of (fst (dispatchEvent packet p)))
   \<and> sublist ''not supported'' (message_of (fst (on event callback p)))
   \<and> sublist ''not supported'' (message_of (fst (unwrap p)))"
  by (simp add: status_def connect_def send_def publish_def dispatchEvent_def on_def unwrap_def
      NOT_SUPPORTED_LONG_def sublist_Cons_right)

text \<open>The claim as stated fails for the two \<^verbatim>\<open>async\<close> methods: nothing is raised at the call site.\<close>

theorem connect_not_raised_at_call_site:
  "\<not> raised_at_call_site (fst (connect a_proxy))
   \<and> \<not> raised_at_call_site (fst (dispatchEvent (Plain 0) a_proxy))"
  by (simp add: connect_def dispatchEvent_def)

text \<open>
  C10. \<open>getClientByServiceName\<close> memoizes. The first call for a service a loaded package
  owns a constructor for, with nothing cached under the name, builds exactly one client and
  caches it. A call that returns a client leaves it cached under the name, and the next call
  with that name returns the same client and changes nothing. Only a call that finds no
  cached client builds one. Starting from a consistent registry, no sequence of lookups ever
  builds two clients for one service name, and the cached clients are all the clients built.
  \<open>close\<close> empties the registry (and the loaded packages, so a later lookup throws).
\<close>

theorem getClientByServiceName_memoizes:
  "(map_of (clients p) name = None \<and> getClient p name = Some clientRef
      \<and> map_of clientRef name = Some ServiceClient \<longrightarrow>
      (\<exists>c1 p1. getClientByServiceName name p = (Returned c1, p1)
         \<and> constructed p1 = constructed p @ [c1]
         \<and> ident c1 = length (constructed p) \<and> service c1 = name
         \<and> clients p1 = clients p @ [(name, c1)]
         \<and> getClientByServiceName name p1 = (Returned c1, p1)))
   \<and> (getClientByServiceName name p = (Returned c, p') \<longrightarrow>
        getClientByServiceName name p' = (Returned c, p')
        \<and> map_of (clients p') name = Some c
        \<and> (case map_of (clients p) name of
              Some c0 \<Rightarrow> c = c0 \<and> p' = p
            | None \<Rightarrow> constructed p' = constructed p @ [c] \<and> ident c = length (constructed p)
                       \<and> service c = name)
        \<and> (registry_consistent p \<longrightarrow>
              distinct (map service (constructed (lookups names p')))
              \<and> map snd (clients (lookups names p')) = constructed (lookups names p'))
        \<and> clients (close p') = []
        \<and> fst (getClientByServiceName name (close p')) = Thrown (InvalidGrpcServiceException name))"
proof (intro conjI impI)
  assume a: "map_of (clients p) name = None \<and> getClient p name = Some clientRef
      \<and> map_of clientRef name = Some ServiceClient"
  then obtain c1 p1 where r: "createClientByServiceName name p = (Returned c1, p1)"
    and f: "clients p1 = AList.update name c1 (clients p)"
      "constructed p1 = constructed p @ [c1]" "ident c1 = length (constructed p)"
      "service c1 = name"
    using create_builds[of p name clientRef] by blast
  from a r have g: "getClientByServiceName name p = (Returned c1, p1)"
    by (simp add: getClientByServiceName_def)
  from a f(1) have "clients p1 = clients p @ [(name, c1)]"
    by (simp add: update_absent)
  with g f get_again[OF g]
  show "\<exists>c1 p1. getClientByServiceName name p = (Returned c1, p1)
         \<and> constructed p1 = constructed p @ [c1]
         \<and> ident c1 = length (constructed p) \<and> service c1 = name
         \<and> clients p1 = clients p @ [(name, c1)]
         \<and> getClientByServiceName name p1 = (Returned c1, p1)"
    by blast
next
  assume r: "getClientByServiceName name p = (Returned c, p')"
  show "getClientByServiceName name p' = (Returned c, p')" by (rule get_again[OF r])
  show "map_of (clients p') name = Some c" by (rule get_cached[OF r])
  show "case map_of (clients p) name of
              Some c0 \<Rightarrow> c = c0 \<and> p' = p
            | None \<Rightarrow> constructed p' = constructed p @ [c] \<and> ident c = length (constructed p)
                       \<and> service c = name"
    by (rule get_first[OF r])
  show "clients (close p') = []" by (simp add: close_def)
  show "fst (getClientByServiceName name (close p')) = Thrown (InvalidGrpcServiceException name)"
    by (simp add: getClientByServiceName_def createClientByServiceName_def getClient_def close_def)
  {
    assume "registry_consistent p"
    then have c: "registry_consistent (lookups names p')"
      using get_consistent[of p name] r lookups_consistent by simp
    from c show "distinct (map service (constructed (lookups names p')))"
      by (rule consistent_distinct)
    from c show "map snd (clients (lookups names p')) = constructed (lookups names p')"
      by (simp add: registry_consistent_def)
  }
qed

theorem getClientByServiceName_memoizes_witness:
  "(\<exists>c1 p1. getClientByServiceName ''HeroService'' a_proxy = (Returned c1, p1)
      \<and> constructed p1 = constructed a_proxy @ [c1]
      \<and> getClientByServiceName ''HeroService'' p1 = (Returned c1, p1))
   \<and> getClientByServiceName ''HeroService'' a_proxy_with_hero = (Returned hero_client, a_proxy_with_hero)
   \<and> constructed a_proxy_with_hero = constructed a_proxy @ [hero_client]
   \<and> distinct (map service (constructed
        (lookups [''HeroService'', ''OrderService'', ''HeroService''] a_proxy_with_hero)))"
proof -
  let ?names = "[''HeroService'', ''OrderService'', ''HeroService'']"
  let ?pkg = "[(''HeroService'', ServiceClient), (''HeroById'', MessageType),
               (''OrderService'', ServiceClient)]"
  have n: "map_of (clients a_proxy) ''HeroService'' = None" by (simp add: a_proxy_def)
  have g: "getClient a_proxy ''HeroService'' = Some ?pkg"
    by (simp add: getClient_def a_proxy_def)
  have k: "map_of ?pkg ''HeroService'' = Some ServiceClient" by simp
  have r: "registry_consistent a_proxy" by (simp add: registry_consistent_def a_proxy_def)
  note m = getClientByServiceName_memoizes[of a_proxy "''HeroService''" ?pkg hero_client
      a_proxy_with_hero ?names]
  from m n g k have z: "\<exists>c1 p1. getClientByServiceName ''HeroService'' a_proxy = (Returned c1, p1)
      \<and> constructed p1 = constructed a_proxy @ [c1]
      \<and> getClientByServiceName ''HeroService'' p1 = (Returned c1, p1)"
    by blast
  from m first_lookup have a: "getClientByServiceName ''HeroService'' a_proxy_with_hero
                    = (Returned hero_client, a_proxy_with_hero)"
    by blast
  from m first_lookup have "case map_of (clients a_proxy) ''HeroService'' of
           Some c0 \<Rightarrow> hero_client = c0 \<and> a_proxy_with_hero = a_proxy
         | None \<Rightarrow> constructed a_proxy_with_hero = constructed a_proxy @ [hero_client]
                    \<and> ident hero_client = length (constructed a_proxy)
                    \<and> service hero_client = ''HeroService''"
    by blast
  with n have b: "constructed a_proxy_with_hero = constructed a_proxy @ [hero_client]"
    by simp
  from m first_lookup r
  have c: "distinct (map service (constructed (lookups ?names a_proxy_with_hero)))"
    by blast
  from z a b c show ?thesis by blast
qed

end
